theory Spec2Isabelle
  imports Complex_Main "HOL-Library.AList"
begin

section \<open>Data model (objects.py)\<close>

text \<open>
  The three value types of \<^verbatim>\<open>objects.py\<close>.  \<^verbatim>\<open>TLColor\<close> is an enum whose iteration
  order is GREEN, YELLOW, RED; \<^verbatim>\<open>Location\<close> and \<^verbatim>\<open>Point\<close> are named tuples.  The fields
  \<^verbatim>\<open>x\<close> and \<^verbatim>\<open>y\<close> of a point are called \<open>point_x\<close> and \<open>point_y\<close> here.

  Numbers: the floats of the source are modelled by exact rationals, so rounding is not
  modelled.  A naive \<^verbatim>\<open>datetime\<close> is modelled by the number of seconds from the epoch
  to it; \<^verbatim>\<open>.timestamp()\<close> reads that number and \<^verbatim>\<open>.second\<close> is the whole number of
  seconds past the minute.  This presumes a constant UTC offset of whole minutes for the
  process (so that the second of the wall-clock minute is the second of the epoch minute).
\<close>

datatype TLColor = GREEN | YELLOW | RED

datatype Location = Location (rsu_id: int) (bound: string) (movement: string)

datatype Point = Point (point_x: rat) (point_y: rat)

type_synonym datetime = rat

definition timestamp :: "datetime \<Rightarrow> rat" where
  "timestamp tyme = tyme"

definition second :: "datetime \<Rightarrow> rat" where
  "second tyme = of_int (\<lfloor>tyme\<rfloor> mod 60)"

text \<open>\<^verbatim>\<open>for color in TLColor\<close>: the enum's definition order.\<close>

definition TLColor_members :: "TLColor list" where
  "TLColor_members = [GREEN, YELLOW, RED]"

datatype error = AttributeError | KeyError | ValueError | TypeError

section \<open>Dictionaries\<close>

text \<open>
  A Python \<^verbatim>\<open>dict\<close> keeps its keys in insertion order, and the program iterates over
  \<^verbatim>\<open>.items()\<close>, so a dictionary is an association list in insertion order.
  \<open>AList.update\<close> is assignment to a key: it replaces the value in place when the key
  is there and adds the pair at the end when it is not.  Reading \<^verbatim>\<open>d[k]\<close> from a
  \<^verbatim>\<open>defaultdict\<close> inserts the default under a missing key; \<open>getitem_default\<close> returns the
  dictionary after the read together with the value read.
\<close>

type_synonym ('k, 'v) dict = "('k \<times> 'v) list"

definition getitem_default :: "'v \<Rightarrow> ('k, 'v) dict \<Rightarrow> 'k \<Rightarrow> ('k, 'v) dict \<times> 'v" where
  "getitem_default dflt d k =
     (case map_of d k of
        None \<Rightarrow> (d @ [(k, dflt)], dflt)
      | Some v \<Rightarrow> (d, v))"

text \<open>A cycle record is a dictionary with the three colors as keys (the dictionary
  comprehension of \<^verbatim>\<open>make_cycle_data\<close> builds it so), each with a time or \<^verbatim>\<open>None\<close>: a
  function from the colors.\<close>

type_synonym CycleDatum = "TLColor \<Rightarrow> datetime option"
type_synonym CycleDataType = "(Location, CycleDatum list) dict"
type_synonym ControllerEventsType = "(Location, datetime list) dict"
type_synonym StoredCyclePointsType = "(Location, (TLColor, Point list) dict) dict"
type_synonym StoredEventsType = "(Location, rat list list) dict"

text \<open>
  \<^verbatim>\<open>stored_cycle_points[loc][color]\<close> on the \<^verbatim>\<open>defaultdict(lambda: defaultdict(list))\<close>:
  both levels are created when missing.  The inner dictionary is an object held by the
  outer one, so what the read inserts into it is written back.
\<close>

definition getitem2 ::
  "StoredCyclePointsType \<Rightarrow> Location \<Rightarrow> TLColor \<Rightarrow> StoredCyclePointsType \<times> Point list" where
  "getitem2 stored loc color =
     (let (stored1, inner) = getitem_default [] stored loc;
          (inner1, points) = getitem_default [] inner color
      in (AList.update loc inner1 stored1, points))"

text \<open>Replacing the list object held at \<^verbatim>\<open>stored_cycle_points[loc][color]\<close> (the effect of
  mutating it in place).\<close>

definition setitem2 ::
  "StoredCyclePointsType \<Rightarrow> Location \<Rightarrow> TLColor \<Rightarrow> Point list \<Rightarrow> StoredCyclePointsType" where
  "setitem2 stored loc color points =
     (let (stored1, inner) = getitem_default [] stored loc
      in AList.update loc (AList.update color points inner) stored1)"

text \<open>A read that inserts nothing: what the list at a key holds, the empty list when the
  key is missing.  Used to state properties only.\<close>

definition points_at :: "StoredCyclePointsType \<Rightarrow> Location \<Rightarrow> TLColor \<Rightarrow> Point list" where
  "points_at stored loc color =
     (case map_of stored loc of
        None \<Rightarrow> []
      | Some inner \<Rightarrow> (case map_of inner color of None \<Rightarrow> [] | Some points \<Rightarrow> points))"

definition batches_at :: "StoredEventsType \<Rightarrow> Location \<Rightarrow> rat list list" where
  "batches_at stored_events loc =
     (case map_of stored_events loc of None \<Rightarrow> [] | Some batches \<Rightarrow> batches)"

section \<open>Loops whose body can raise\<close>

text \<open>A \<^verbatim>\<open>for\<close> loop over a list: the body takes the state and the element and returns
  the new state or the exception raised, which ends the loop.\<close>

fun for_loop :: "('s \<Rightarrow> 'a \<Rightarrow> error + 's) \<Rightarrow> 's \<Rightarrow> 'a list \<Rightarrow> error + 's" where
  "for_loop body s [] = Inr s"
| "for_loop body s (a # as) =
     (case body s a of
        Inl e \<Rightarrow> Inl e
      | Inr s1 \<Rightarrow> for_loop body s1 as)"

section \<open>update_stored_cycle_points\<close>

text \<open>
  The \<^verbatim>\<open>if\<close>/\<^verbatim>\<open>elif\<close> chain of the loop body, in the source's order.  The result is
  \<open>Inr None\<close> for \<^verbatim>\<open>continue\<close>, \<open>Inr (Some p)\<close> for the point assigned to
  \<^verbatim>\<open>curr_cycle_points[color]\<close>, and \<open>Inl AttributeError\<close> where the GREEN branch reads
  \<^verbatim>\<open>prev_red_point.x\<close> while \<^verbatim>\<open>prev_red_point\<close> is \<^verbatim>\<open>None\<close>.
\<close>

definition derive_point ::
  "TLColor \<Rightarrow> datetime option \<Rightarrow> Point option \<Rightarrow> Point option \<Rightarrow> (TLColor \<rightharpoonup> Point)
     \<Rightarrow> error + Point option" where
  "derive_point color tyme prev_point prev_red_point curr_cycle_points =
     (case tyme of
        None \<Rightarrow>
          (case prev_point of
             None \<Rightarrow> Inr None
           | Some prev \<Rightarrow> Inr (Some prev))
      | Some t \<Rightarrow>
          (case prev_point of
             None \<Rightarrow> Inr (Some (Point (timestamp t) (second t)))
           | Some prev \<Rightarrow>
               if color = GREEN then
                 (case prev_red_point of
                    None \<Rightarrow> Inl AttributeError
                  | Some prev_red \<Rightarrow>
                      Inr (Some (Point (timestamp t) (timestamp t - point_x prev_red))))
               else if color = YELLOW \<and> curr_cycle_points GREEN \<noteq> None then
                 (case curr_cycle_points GREEN of
                    None \<Rightarrow> Inl KeyError
                  | Some g \<Rightarrow>
                      Inr (Some (Point (timestamp t) (point_y g + timestamp t - point_x g))))
               else if color = RED \<and> curr_cycle_points YELLOW \<noteq> None then
                 (case curr_cycle_points YELLOW of
                    None \<Rightarrow> Inl KeyError
                  | Some yl \<Rightarrow>
                      Inr (Some (Point (timestamp t) (point_y yl + timestamp t - point_x yl))))
               else if color = RED \<and> curr_cycle_points GREEN \<noteq> None then
                 (case curr_cycle_points GREEN of
                    None \<Rightarrow> Inl KeyError
                  | Some g \<Rightarrow>
                      Inr (Some (Point (timestamp t) (point_y g + timestamp t - point_x g))))
               else Inr (Some (Point (timestamp t) (second t)))))"

text \<open>\<^verbatim>\<open>None if not xs else xs[-1]\<close>.\<close>

definition last_or_None :: "'a list \<Rightarrow> 'a option" where
  "last_or_None xs = (if xs = [] then None else Some (last xs))"

text \<open>The append at the end of the loop body, with the \<^verbatim>\<open>pop(0)\<close> when the list has
  reached four elements.\<close>

definition append_and_trim :: "Point list \<Rightarrow> Point \<Rightarrow> Point list" where
  "append_and_trim points p =
     (let points1 = points @ [p]
      in if length points1 = 4 then tl points1 else points1)"

text \<open>One iteration of \<^verbatim>\<open>for color in TLColor\<close>.  The state is the stored history and
  \<^verbatim>\<open>curr_cycle_points\<close>.\<close>

definition color_step ::
  "Location \<Rightarrow> CycleDatum \<Rightarrow> StoredCyclePointsType \<times> (TLColor \<rightharpoonup> Point) \<Rightarrow> TLColor
     \<Rightarrow> error + StoredCyclePointsType \<times> (TLColor \<rightharpoonup> Point)" where
  "color_step loc datum st color =
     (let (stored, curr_cycle_points) = st;
          tyme = datum color;
          (stored1, points) = getitem2 stored loc color;
          prev_point = last_or_None points;
          (stored2, reds) = getitem2 stored1 loc RED;
          prev_red_point = last_or_None reds
      in case derive_point color tyme prev_point prev_red_point curr_cycle_points of
           Inl e \<Rightarrow> Inl e
         | Inr None \<Rightarrow> Inr (stored2, curr_cycle_points)
         | Inr (Some p) \<Rightarrow>
             Inr (setitem2 stored2 loc color
                    (append_and_trim (snd (getitem2 stored2 loc color)) p),
                  curr_cycle_points(color \<mapsto> p)))"

text \<open>The body of \<^verbatim>\<open>for datum in data\<close>: a fresh \<^verbatim>\<open>curr_cycle_points\<close>, then the three
  colors in order.\<close>

definition datum_step ::
  "Location \<Rightarrow> StoredCyclePointsType \<Rightarrow> CycleDatum \<Rightarrow> error + StoredCyclePointsType" where
  "datum_step loc stored datum =
     (case for_loop (color_step loc datum) (stored, Map.empty) TLColor_members of
        Inl e \<Rightarrow> Inl e
      | Inr st1 \<Rightarrow> Inr (fst st1))"

definition update_stored_cycle_points ::
  "StoredCyclePointsType \<Rightarrow> CycleDataType \<Rightarrow> error + StoredCyclePointsType" where
  "update_stored_cycle_points stored_cycle_points all_cycle_data =
     for_loop (\<lambda>stored (loc, data). for_loop (datum_step loc) stored data)
       stored_cycle_points all_cycle_data"

section \<open>update_stored_events\<close>

text \<open>One iteration of the loop: the oldest batch is popped when three are held, then the
  new batch of epoch seconds is appended.\<close>

definition events_step ::
  "StoredEventsType \<Rightarrow> Location \<times> datetime list \<Rightarrow> StoredEventsType" where
  "events_step stored_events item =
     (let (loc, events) = item;
          (stored1, batches) = getitem_default [] stored_events loc;
          batches1 = (if length batches = 3 then tl batches else batches)
      in AList.update loc (batches1 @ [map timestamp events]) stored1)"

definition update_stored_events ::
  "StoredEventsType \<Rightarrow> ControllerEventsType \<Rightarrow> StoredEventsType" where
  "update_stored_events stored_events all_new_events =
     foldl events_step stored_events all_new_events"

section \<open>Output rows and files\<close>

text \<open>
  The four output files, and a file's contents as the list of rows written to it.
  \<^verbatim>\<open>make_data_row\<close> builds ten columns; the last five are renderings of \<^verbatim>\<open>x_val\<close> as
  date strings and are left out of the model, which keeps the first five.
\<close>

datatype out_file = GREEN_OUT_FILE | YELLOW_OUT_FILE | RED_OUT_FILE | EVENT_OUT_FILE

datatype csv_row = DATA_HEADER | DataRow int string string rat rat

type_synonym files = "out_file \<Rightarrow> csv_row list"

fun COLOR_TO_OUT_FILE :: "TLColor \<Rightarrow> out_file" where
  "COLOR_TO_OUT_FILE GREEN = GREEN_OUT_FILE"
| "COLOR_TO_OUT_FILE YELLOW = YELLOW_OUT_FILE"
| "COLOR_TO_OUT_FILE RED = RED_OUT_FILE"

definition write_header :: "files \<Rightarrow> out_file \<Rightarrow> files" where
  "write_header fs fname = fs(fname := [DATA_HEADER])"

definition make_data_row :: "Location \<Rightarrow> rat \<Rightarrow> rat \<Rightarrow> csv_row" where
  "make_data_row loc x_val y_val = DataRow (rsu_id loc) (bound loc) (movement loc) x_val y_val"

text \<open>Opening a file for appending and writing one row for each pair of
  \<^verbatim>\<open>zip(x_vals, y_vals)\<close>.\<close>

definition append_rows :: "files \<Rightarrow> out_file \<Rightarrow> Location \<Rightarrow> rat list \<Rightarrow> rat list \<Rightarrow> files" where
  "append_rows fs fname loc x_vals y_vals =
     fs(fname := fs fname @ map (\<lambda>(x_val, y_val). make_data_row loc x_val y_val) (zip x_vals y_vals))"

section \<open>write_cycle_data\<close>

text \<open>The body of the inner loop.  \<^verbatim>\<open>points[-2]\<close> and \<^verbatim>\<open>points[-1]\<close> are read only when
  the list has two elements or more.\<close>

definition write_points :: "Location \<Rightarrow> files \<Rightarrow> TLColor \<times> Point list \<Rightarrow> files" where
  "write_points loc fs item =
     (let (color, points) = item
      in if length points < 2 then fs
         else
           let x_vals = [point_x (points ! (length points - 2)), point_x (points ! (length points - 1))];
               y_vals = [point_y (points ! (length points - 2)), point_y (points ! (length points - 1))]
           in append_rows fs (COLOR_TO_OUT_FILE color) loc x_vals y_vals)"

definition write_cycle_data :: "files \<Rightarrow> StoredCyclePointsType \<Rightarrow> files" where
  "write_cycle_data fs stored_cycle_points =
     foldl (\<lambda>fs1 (loc, stored_points). foldl (write_points loc) fs1 stored_points)
       (foldl write_header fs (map COLOR_TO_OUT_FILE TLColor_members))
       stored_cycle_points"

section \<open>write_events\<close>

text \<open>
  The inner loop over the RED points.  \<^verbatim>\<open>diff\<close> starts as \<^verbatim>\<open>float('inf')\<close>, which is
  \<open>None\<close> here; every number is below it.
\<close>

definition closer :: "rat \<Rightarrow> rat option \<Rightarrow> bool" where
  "closer d diff = (0 \<le> d \<and> (case diff of None \<Rightarrow> True | Some m \<Rightarrow> d < m))"

definition red_step :: "rat \<Rightarrow> rat option \<Rightarrow> Point \<Rightarrow> rat option" where
  "red_step event diff point =
     (if closer (event - point_x point) diff then Some (event - point_x point) else diff)"

text \<open>The loop over the sorted events of the oldest batch; the state is
  \<^verbatim>\<open>(x_vals, y_vals)\<close>.\<close>

definition event_step :: "Point list \<Rightarrow> rat list \<times> rat list \<Rightarrow> rat \<Rightarrow> rat list \<times> rat list" where
  "event_step reds vals event =
     (case foldl (red_step event) None reds of
        None \<Rightarrow> vals
      | Some diff \<Rightarrow> (fst vals @ [event], snd vals @ [diff]))"

text \<open>The body of the loop over \<^verbatim>\<open>stored_events.items()\<close>.  The \<^verbatim>\<open>or\<close> reads
  \<^verbatim>\<open>stored_cycle_points[loc][TLColor.RED]\<close> only when three batches are held, and that read
  creates the entry when it is missing, so the stored history is part of the state.\<close>

definition write_events_step ::
  "files \<times> StoredCyclePointsType \<Rightarrow> Location \<times> rat list list \<Rightarrow> files \<times> StoredCyclePointsType" where
  "write_events_step st item =
     (let (fs, stored_cycle_points) = st;
          (loc, all_events) = item
      in if length all_events < 3 then (fs, stored_cycle_points)
         else
           let (stored1, reds) = getitem2 stored_cycle_points loc RED
           in if length reds < 3 then (fs, stored1)
              else
                let (x_vals, y_vals) = foldl (event_step reds) ([], []) (sort (all_events ! 0))
                in (append_rows fs EVENT_OUT_FILE loc x_vals y_vals, stored1))"

definition write_events ::
  "files \<Rightarrow> StoredEventsType \<Rightarrow> StoredCyclePointsType \<Rightarrow> files \<times> StoredCyclePointsType" where
  "write_events fs stored_events stored_cycle_points =
     foldl write_events_step (write_header fs EVENT_OUT_FILE, stored_cycle_points) stored_events"

section \<open>Snapshot parsers\<close>








text \<open>
  The library functions that read strings are parameters of the parsers:
  \<open>strptime\<close> is \<^verbatim>\<open>datetime.strptime(s, CYCLE_TIME_FMT)\<close>, \<open>int_of\<close> is \<^verbatim>\<open>int(s)\<close> and
  \<open>seconds_of\<close> is \<^verbatim>\<open>timedelta(seconds=float(s))\<close> as a number of seconds.  Each returns its
  value or the exception it raises.
\<close>















section \<open>Notions used to state the properties\<close>

text \<open>
  The histories the program can hold: both start empty, and each step is a call of
  \<^verbatim>\<open>update_stored_cycle_points\<close> that returns, a call of \<^verbatim>\<open>update_stored_events\<close>, or a
  call of \<^verbatim>\<open>write_events\<close> (which can add empty entries to the point history).
\<close>

inductive reachable :: "StoredCyclePointsType \<times> StoredEventsType \<Rightarrow> bool" where
  start: "reachable ([], [])"
| cycle_update:
    "reachable (stored_cycle_points, stored_events) \<Longrightarrow>
     update_stored_cycle_points stored_cycle_points all_cycle_data = Inr stored1 \<Longrightarrow>
     reachable (stored1, stored_events)"
| events_update:
    "reachable (stored_cycle_points, stored_events) \<Longrightarrow>
     reachable (stored_cycle_points, update_stored_events stored_events all_new_events)"
| events_flush:
    "reachable (stored_cycle_points, stored_events) \<Longrightarrow>
     reachable (snd (write_events fs stored_events stored_cycle_points), stored_events)"

text \<open>Dropping the oldest entry of a list that holds three.\<close>

definition evict_oldest :: "'a list \<Rightarrow> 'a list" where
  "evict_oldest xs = (if length xs = 3 then tl xs else xs)"

text \<open>The outcome of the \<^verbatim>\<open>if\<close>/\<^verbatim>\<open>elif\<close> chain for a color, read from a history
  and the points of the record so far.\<close>

definition derived ::
  "Location \<Rightarrow> CycleDatum \<Rightarrow> StoredCyclePointsType \<Rightarrow> (TLColor \<rightharpoonup> Point) \<Rightarrow> TLColor
     \<Rightarrow> error + Point option" where
  "derived loc datum stored cur color =
     derive_point color (datum color) (last_or_None (points_at stored loc color))
       (last_or_None (points_at stored loc RED)) cur"

text \<open>Every list of the point history, and of the event history, holds at most three
  entries.\<close>

definition bounded :: "StoredCyclePointsType \<Rightarrow> bool" where
  "bounded stored = (\<forall>loc color. length (points_at stored loc color) \<le> 3)"

definition events_bounded :: "StoredEventsType \<Rightarrow> bool" where
  "events_bounded stored_events = (\<forall>loc. length (batches_at stored_events loc) \<le> 3)"

text \<open>The record brings a GREEN time, a GREEN point is stored for the place and no RED
  point is.\<close>

definition green_without_red :: "StoredCyclePointsType \<Rightarrow> Location \<Rightarrow> CycleDatum \<Rightarrow> bool" where
  "green_without_red stored loc datum =
     (datum GREEN \<noteq> None \<and> points_at stored loc GREEN \<noteq> [] \<and> points_at stored loc RED = [])"

text \<open>The times an update brings for a color at a location, in the order in which the
  records are processed.\<close>

definition observed :: "CycleDataType \<Rightarrow> Location \<Rightarrow> TLColor \<Rightarrow> rat list" where
  "observed all_cycle_data loc color =
     concat (map (\<lambda>(l, data).
                    if l = loc then List.map_filter (\<lambda>datum. map_option timestamp (datum color)) data
                    else [])
               all_cycle_data)"

text \<open>The rows of a file that belong to a location.\<close>

fun row_location :: "csv_row \<Rightarrow> Location option" where
  "row_location DATA_HEADER = None"
| "row_location (DataRow rsu bnd mvmt x_val y_val) = Some (Location rsu bnd mvmt)"

definition rows_of :: "Location \<Rightarrow> csv_row list \<Rightarrow> csv_row list" where
  "rows_of loc rows = filter (\<lambda>row. row_location row = Some loc) rows"

text \<open>The two rows of a list of points: the last but one, then the last; none for a list
  of fewer than two points.\<close>

definition last_two_rows :: "Location \<Rightarrow> Point list \<Rightarrow> csv_row list" where
  "last_two_rows loc points =
     (if length points < 2 then []
      else [make_data_row loc (point_x (points ! (length points - 2)))
                              (point_y (points ! (length points - 2))),
            make_data_row loc (point_x (last points)) (point_y (last points))])"

text \<open>
  Event correlation in the words of the specification: the RED point with the largest
  \<open>x\<close> such that \<open>x \<le> e\<close>, when there is one, and the point \<open>(e, e - x)\<close> emitted for the
  event \<open>e\<close>.
\<close>

definition nearest_red_before :: "Point list \<Rightarrow> rat \<Rightarrow> rat option" where
  "nearest_red_before reds e =
     (let candidates = filter (\<lambda>x. x \<le> e) (map point_x reds)
      in if candidates = [] then None else Some (Max (set candidates)))"

definition correlate :: "Point list \<Rightarrow> rat \<Rightarrow> (rat \<times> rat) option" where
  "correlate reds e = map_option (\<lambda>x. (e, e - x)) (nearest_red_before reds e)"

text \<open>A dictionary has each key once, at both levels of the point history.\<close>

definition dict_keys_distinct :: "StoredCyclePointsType \<Rightarrow> bool" where
  "dict_keys_distinct stored =
     (distinct (map fst stored) \<and> list_all (\<lambda>item. distinct (map fst (snd item))) stored)"

text \<open>The rows that event correlation emits for a location, from the batches held for it
  and the RED points retained for it: none with fewer than three batches or fewer than
  three RED points, and otherwise a row for each event of the oldest batch, in ascending
  order, that has a RED point before it.\<close>

definition event_rows :: "Location \<Rightarrow> rat list list \<Rightarrow> Point list \<Rightarrow> csv_row list" where
  "event_rows loc all_events reds =
     (if length all_events < 3 \<or> length reds < 3 then []
      else map (\<lambda>(x_val, y_val). make_data_row loc x_val y_val)
             (List.map_filter (correlate reds) (sort (all_events ! 0))))"



text \<open>The last three entries of a list, the whole list when it holds fewer.\<close>

definition last_three :: "'a list \<Rightarrow> 'a list" where
  "last_three xs = drop (length xs - 3) xs"

text \<open>The records that a snapshot brings for a location, and the batches of epoch seconds
  that a trigger snapshot brings for it, in the order of the snapshot.\<close>

definition records_for :: "CycleDataType \<Rightarrow> Location \<Rightarrow> CycleDatum list" where
  "records_for all_cycle_data loc =
     concat (map (\<lambda>(l, data). if l = loc then data else []) all_cycle_data)"

definition batches_for :: "ControllerEventsType \<Rightarrow> Location \<Rightarrow> rat list list" where
  "batches_for all_new_events loc =
     concat (map (\<lambda>(l, events). if l = loc then [map timestamp events] else []) all_new_events)"

text \<open>A list that comes from another by appending at most \<open>n\<close> entries at the end,
  exactly \<open>n\<close> when the other list is not empty, and keeping the last three.\<close>

definition extended_by :: "nat \<Rightarrow> 'a list \<Rightarrow> 'a list \<Rightarrow> bool" where
  "extended_by n old new =
     (\<exists>ps. length ps \<le> n \<and> (old \<noteq> [] \<longrightarrow> length ps = n) \<and> new = last_three (old @ ps))"









section \<open>Lemmas on the stored history and on loops\<close>

lemma snd_getitem2: "snd (getitem2 stored loc color) = points_at stored loc color"
  by (auto simp: getitem2_def getitem_default_def points_at_def update_conv'
      split: option.splits prod.splits)

lemma points_at_getitem2:
  "points_at (fst (getitem2 stored loc color)) loc' color' = points_at stored loc' color'"
  by (auto simp: getitem2_def getitem_default_def points_at_def update_conv' map_add_def
      split: option.splits prod.splits)

lemma points_at_setitem2:
  "points_at (setitem2 stored loc color points) loc' color' =
     (if loc' = loc \<and> color' = color then points else points_at stored loc' color')"
  by (auto simp: setitem2_def getitem_default_def points_at_def update_conv' map_add_def
      split: option.splits prod.splits)

lemma for_loop_invariant:
  assumes "for_loop body s xs = Inr s'" and "P s"
    and "\<And>s1 a s2. P s1 \<Longrightarrow> a \<in> set xs \<Longrightarrow> body s1 a = Inr s2 \<Longrightarrow> P s2"
  shows "P s'"
  using assms
proof (induction xs arbitrary: s)
  case Nil
  then show ?case by simp
next
  case (Cons a xs)
  from Cons.prems(1) obtain s1 where b: "body s a = Inr s1" and r: "for_loop body s1 xs = Inr s'"
    by (auto split: sum.splits)
  have p1: "P s1"
    by (rule Cons.prems(3)[OF Cons.prems(2) _ b]) simp
  have step: "\<And>s1 a s2. P s1 \<Longrightarrow> a \<in> set xs \<Longrightarrow> body s1 a = Inr s2 \<Longrightarrow> P s2"
    by (rule Cons.prems(3)) simp_all
  show ?case by (rule Cons.IH[OF r p1 step])
qed

lemma foldl_invariant:
  assumes "P s" and "\<And>s1 a. P s1 \<Longrightarrow> a \<in> set xs \<Longrightarrow> P (f s1 a)"
  shows "P (foldl f s xs)"
  using assms by (induction xs arbitrary: s) auto

text \<open>The point a color gets in a record, from the history as it is before the color is
  processed.\<close>

lemma append_and_trim_eq: "append_and_trim points p = evict_oldest points @ [p]"
  by (cases points) (auto simp: append_and_trim_def evict_oldest_def Let_def)

lemma length_append_and_trim:
  "length points \<le> 3 \<Longrightarrow> length (append_and_trim points p) \<le> 3"
  by (auto simp: append_and_trim_def Let_def)

lemma color_step_eq:
  "color_step loc datum (stored, cur) color =
     (case derived loc datum stored cur color of
        Inl e \<Rightarrow> Inl e
      | Inr None \<Rightarrow> Inr (fst (getitem2 (fst (getitem2 stored loc color)) loc RED), cur)
      | Inr (Some p) \<Rightarrow>
          Inr (setitem2 (fst (getitem2 (fst (getitem2 stored loc color)) loc RED)) loc color
                 (append_and_trim (points_at stored loc color) p), cur(color \<mapsto> p)))"
  unfolding color_step_def derived_def
  by (simp add: Let_def split_beta snd_getitem2 points_at_getitem2 split: sum.splits option.splits)

lemma color_step_cases:
  assumes "color_step loc datum (stored, cur) color = Inr (stored', cur')"
  obtains (skip) "derived loc datum stored cur color = Inr None"
      "cur' = cur" "\<And>loc' color'. points_at stored' loc' color' = points_at stored loc' color'"
  | (point) p where "derived loc datum stored cur color = Inr (Some p)"
      "cur' = cur(color \<mapsto> p)"
      "\<And>loc' color'. points_at stored' loc' color' =
         (if loc' = loc \<and> color' = color then append_and_trim (points_at stored loc color) p
          else points_at stored loc' color')"
proof (cases "derived loc datum stored cur color")
  case (Inl e)
  with assms show ?thesis by (simp add: color_step_eq)
next
  case (Inr r)
  show ?thesis
  proof (cases r)
    case None
    with Inr assms have "stored' = fst (getitem2 (fst (getitem2 stored loc color)) loc RED)" "cur' = cur"
      by (simp_all add: color_step_eq)
    with Inr None show ?thesis by (intro skip) (simp_all add: points_at_getitem2)
  next
    case (Some p)
    with Inr assms have "stored' = setitem2 (fst (getitem2 (fst (getitem2 stored loc color)) loc RED)) loc color
                 (append_and_trim (points_at stored loc color) p)" "cur' = cur(color \<mapsto> p)"
      by (simp_all add: color_step_eq)
    with Inr Some show ?thesis
      by (intro point[of p]) (simp_all add: points_at_getitem2 points_at_setitem2)
  qed
qed

lemma bounded_color_step:
  assumes "color_step loc datum st color = Inr st'" and "bounded (fst st)"
  shows "bounded (fst st')"
proof -
  obtain stored cur stored' cur' where st: "st = (stored, cur)" "st' = (stored', cur')"
    by (cases st, cases st') auto
  from assms(1)[unfolded st] show ?thesis
  proof (cases rule: color_step_cases)
    case skip
    with assms(2) st show ?thesis by (simp add: bounded_def)
  next
    case (point p)
    with assms(2) st show ?thesis by (simp add: bounded_def length_append_and_trim)
  qed
qed

lemma bounded_datum_step:
  assumes "datum_step loc stored datum = Inr stored'" and "bounded stored"
  shows "bounded stored'"
proof -
  from assms(1) obtain st' where l: "for_loop (color_step loc datum) (stored, Map.empty) TLColor_members = Inr st'"
    and s: "stored' = fst st'"
    by (auto simp: datum_step_def split: sum.splits)
  have "bounded (fst st')"
  proof (rule for_loop_invariant[OF l, where P = "\<lambda>st. bounded (fst st)"])
    show "bounded (fst (stored, Map.empty))" using assms(2) by simp
  next
    fix s1 a s2
    assume "bounded (fst s1)" and "color_step loc datum s1 a = Inr s2"
    then show "bounded (fst s2)" by (rule bounded_color_step[rotated])
  qed
  with s show ?thesis by simp
qed

lemma bounded_update_stored_cycle_points:
  assumes "update_stored_cycle_points stored all_cycle_data = Inr stored'" and "bounded stored"
  shows "bounded stored'"
proof (rule for_loop_invariant[OF assms(1)[unfolded update_stored_cycle_points_def], where P = bounded])
  show "bounded stored" by (rule assms(2))
next
  fix s1 :: StoredCyclePointsType and a s2
  assume b: "bounded s1" and r: "(case a of (loc, data) \<Rightarrow> for_loop (datum_step loc) s1 data) = Inr s2"
  obtain loc data where a: "a = (loc, data)" by (cases a)
  from r a have l: "for_loop (datum_step loc) s1 data = Inr s2" by simp
  show "bounded s2"
  proof (rule for_loop_invariant[OF l, where P = bounded])
    show "bounded s1" by (rule b)
  next
    fix s3 d s4
    assume "bounded s3" and "datum_step loc s3 d = Inr s4"
    then show "bounded s4" by (rule bounded_datum_step[rotated])
  qed
qed

lemma batches_at_events_step:
  "batches_at (events_step stored_events (loc, events)) loc' =
     (if loc' = loc then evict_oldest (batches_at stored_events loc) @ [map timestamp events]
      else batches_at stored_events loc')"
  by (auto simp: events_step_def getitem_default_def batches_at_def evict_oldest_def
      update_conv' map_add_def split: option.splits)

lemma length_evict_oldest: "length xs \<le> 3 \<Longrightarrow> length (evict_oldest xs) \<le> 2"
  by (auto simp: evict_oldest_def)

lemma events_bounded_update:
  assumes "events_bounded stored_events"
  shows "events_bounded (update_stored_events stored_events all_new_events)"
  unfolding update_stored_events_def
proof (rule foldl_invariant[where P = events_bounded])
  show "events_bounded stored_events" by (rule assms)
next
  fix s1 :: StoredEventsType and a :: "Location \<times> datetime list"
  assume b: "events_bounded s1"
  obtain loc events where a: "a = (loc, events)" by (cases a)
  show "events_bounded (events_step s1 a)"
    using b unfolding a events_bounded_def
    by (simp add: batches_at_events_step length_evict_oldest)
qed

lemma points_at_write_events_step:
  "points_at (snd (write_events_step st item)) loc color = points_at (snd st) loc color"
proof -
  obtain fs stored where st: "st = (fs, stored)" by (cases st)
  obtain l all_events where item: "item = (l, all_events)" by (cases item)
  have "snd (write_events_step st item) = stored \<or>
        snd (write_events_step st item) = fst (getitem2 stored l RED)"
    unfolding st item write_events_step_def
    by (simp add: Let_def split_beta)
  then show ?thesis using st by (auto simp: points_at_getitem2)
qed

lemma points_at_write_events:
  "points_at (snd (write_events fs stored_events stored)) loc color = points_at stored loc color"
  unfolding write_events_def
  by (rule foldl_invariant[where P = "\<lambda>st. points_at (snd st) loc color = points_at stored loc color"])
     (simp_all add: points_at_write_events_step)

lemma points_at_Nil: "points_at [] loc color = []"
  by (simp add: points_at_def)

lemma batches_at_Nil: "batches_at [] loc = []"
  by (simp add: batches_at_def)

lemma reachable_bounded:
  "reachable st \<Longrightarrow> bounded (fst st) \<and> events_bounded (snd st)"
proof (induction rule: reachable.induct)
  case start
  show ?case by (simp add: bounded_def events_bounded_def points_at_Nil batches_at_Nil)
next
  case (cycle_update stored_cycle_points stored_events all_cycle_data stored1)
  then show ?case using bounded_update_stored_cycle_points by auto
next
  case (events_update stored_cycle_points stored_events all_new_events)
  then show ?case using events_bounded_update by auto
next
  case (events_flush stored_cycle_points stored_events fs)
  then show ?case by (simp add: bounded_def points_at_write_events)
qed

lemma update_single_record:
  "update_stored_cycle_points stored [(loc, [datum])] = datum_step loc stored datum"
  by (simp add: update_stored_cycle_points_def split: sum.splits)

lemma derive_point_Inl:
  assumes "derive_point color tyme prev_point prev_red_point cur = Inl e"
  shows "color = GREEN \<and> tyme \<noteq> None \<and> prev_point \<noteq> None \<and> prev_red_point = None
           \<and> e = AttributeError"
  using assms unfolding derive_point_def
  by (simp split: option.splits if_splits)

lemma derive_point_absent:
  "derive_point color None prev_point prev_red_point cur = Inr prev_point"
  by (simp add: derive_point_def split: option.splits)

lemma derive_point_first:
  "derive_point color (Some t) None prev_red_point cur = Inr (Some (Point (timestamp t) (second t)))"
  by (simp add: derive_point_def)

lemma derive_point_x:
  assumes "derive_point color (Some t) prev_point prev_red_point cur = Inr (Some p)"
  shows "point_x p = timestamp t"
  using assms unfolding derive_point_def
  by (auto split: option.splits if_splits)

lemma last_or_None_eq_None [simp]: "last_or_None xs = None \<longleftrightarrow> xs = []"
  by (simp add: last_or_None_def)

lemma datum_step_unfold:
  "datum_step loc stored datum = Inr stored' \<longleftrightarrow>
     (\<exists>s1 c1 s2 c2 c3.
        color_step loc datum (stored, Map.empty) GREEN = Inr (s1, c1) \<and>
        color_step loc datum (s1, c1) YELLOW = Inr (s2, c2) \<and>
        color_step loc datum (s2, c2) RED = Inr (stored', c3))"
  by (auto simp: datum_step_def TLColor_members_def split: sum.splits)

lemma color_step_Inl:
  assumes "color_step loc datum (stored, cur) color = Inl e"
  shows "color = GREEN \<and> datum GREEN \<noteq> None \<and> points_at stored loc GREEN \<noteq> []
           \<and> points_at stored loc RED = [] \<and> e = AttributeError"
proof -
  from assms have "derived loc datum stored cur color = Inl e"
    by (simp add: color_step_eq split: sum.splits option.splits)
  from derive_point_Inl[OF this[unfolded derived_def]] show ?thesis by auto
qed

lemma color_step_not_GREEN:
  assumes "color \<noteq> GREEN"
  shows "\<exists>st'. color_step loc datum st color = Inr st'"
proof (cases "color_step loc datum st color")
  case (Inl e)
  then show ?thesis using color_step_Inl[of loc datum "fst st" "snd st" color e] assms by simp
next
  case (Inr st')
  then show ?thesis by blast
qed

lemma datum_step_returns:
  assumes "\<not> green_without_red stored loc datum"
  shows "\<exists>stored'. datum_step loc stored datum = Inr stored'"
proof -
  have "\<exists>st1. color_step loc datum (stored, Map.empty) GREEN = Inr st1"
  proof (cases "color_step loc datum (stored, Map.empty) GREEN")
    case (Inl e)
    from color_step_Inl[OF this] assms show ?thesis by (simp add: green_without_red_def)
  next
    case (Inr st1)
    then show ?thesis by blast
  qed
  then obtain s1 c1 where g: "color_step loc datum (stored, Map.empty) GREEN = Inr (s1, c1)" by force
  obtain s2 c2 where y: "color_step loc datum (s1, c1) YELLOW = Inr (s2, c2)"
    using color_step_not_GREEN[of YELLOW loc datum "(s1, c1)"] by force
  obtain s3 c3 where r: "color_step loc datum (s2, c2) RED = Inr (s3, c3)"
    using color_step_not_GREEN[of RED loc datum "(s2, c2)"] by force
  from g y r show ?thesis unfolding datum_step_unfold by blast
qed

lemma datum_step_raises:
  assumes "green_without_red stored loc datum"
  shows "datum_step loc stored datum = Inl AttributeError"
proof -
  from assms obtain t where t: "datum GREEN = Some t" and g: "points_at stored loc GREEN \<noteq> []"
    and r: "points_at stored loc RED = []"
    by (auto simp: green_without_red_def)
  have "derived loc datum stored Map.empty GREEN = Inl AttributeError"
    using t g r by (simp add: derived_def derive_point_def last_or_None_def)
  then have "color_step loc datum (stored, Map.empty) GREEN = Inl AttributeError"
    by (simp add: color_step_eq)
  then show ?thesis by (simp add: datum_step_def TLColor_members_def)
qed

text \<open>What a record does to the list of one color: the lists of the other colors and
  places are those before the record.\<close>

lemma color_step_other:
  assumes "color_step loc datum (stored, cur) color = Inr (stored', cur')"
    and "loc' \<noteq> loc \<or> color' \<noteq> color"
  shows "points_at stored' loc' color' = points_at stored loc' color'"
  using assms(1)
proof (cases rule: color_step_cases)
  case skip
  then show ?thesis by simp
next
  case (point p)
  with assms(2) show ?thesis by auto
qed

lemma color_step_own:
  assumes "color_step loc datum (stored, cur) color = Inr (stored', cur')"
  shows "\<exists>r. derived loc datum stored cur color = Inr r \<and>
           points_at stored' loc color =
             (case r of None \<Rightarrow> points_at stored loc color
              | Some p \<Rightarrow> append_and_trim (points_at stored loc color) p)"
  using assms
proof (cases rule: color_step_cases)
  case skip
  then show ?thesis by simp
next
  case (point p)
  then show ?thesis by simp
qed

lemma datum_step_color:
  assumes "datum_step loc stored datum = Inr stored'"
  shows "\<exists>cur r. derive_point color (datum color) (last_or_None (points_at stored loc color))
                    (last_or_None (points_at stored loc RED)) cur = Inr r \<and>
           points_at stored' loc color =
             (case r of None \<Rightarrow> points_at stored loc color
              | Some p \<Rightarrow> append_and_trim (points_at stored loc color) p)"
proof -
  from assms obtain s1 c1 s2 c2 c3 where
    g: "color_step loc datum (stored, Map.empty) GREEN = Inr (s1, c1)" and
    y: "color_step loc datum (s1, c1) YELLOW = Inr (s2, c2)" and
    r: "color_step loc datum (s2, c2) RED = Inr (stored', c3)"
    unfolding datum_step_unfold by blast
  note g_other = color_step_other[OF g] and y_other = color_step_other[OF y]
    and r_other = color_step_other[OF r]
  show ?thesis
  proof (cases color)
    case GREEN
    from color_step_own[OF g] obtain r0 where
      "derived loc datum stored Map.empty GREEN = Inr r0"
      "points_at s1 loc GREEN = (case r0 of None \<Rightarrow> points_at stored loc GREEN
              | Some p \<Rightarrow> append_and_trim (points_at stored loc GREEN) p)" by blast
    then show ?thesis unfolding GREEN derived_def
      using y_other[of loc GREEN] r_other[of loc GREEN] by (intro exI[of _ Map.empty] exI[of _ r0]) (simp cong: option.case_cong)
  next
    case YELLOW
    from color_step_own[OF y] obtain r0 where
      "derived loc datum s1 c1 YELLOW = Inr r0"
      "points_at s2 loc YELLOW = (case r0 of None \<Rightarrow> points_at s1 loc YELLOW
              | Some p \<Rightarrow> append_and_trim (points_at s1 loc YELLOW) p)" by blast
    then show ?thesis unfolding YELLOW derived_def
      using g_other[of loc YELLOW] g_other[of loc RED] r_other[of loc YELLOW]
      by (intro exI[of _ c1] exI[of _ r0]) (simp cong: option.case_cong)
  next
    case RED
    from color_step_own[OF r] obtain r0 where
      "derived loc datum s2 c2 RED = Inr r0"
      "points_at stored' loc RED = (case r0 of None \<Rightarrow> points_at s2 loc RED
              | Some p \<Rightarrow> append_and_trim (points_at s2 loc RED) p)" by blast
    then show ?thesis unfolding RED derived_def
      using g_other[of loc RED] y_other[of loc RED]
      by (intro exI[of _ c2] exI[of _ r0]) (simp cong: option.case_cong)
  qed
qed

lemma derive_point_Some:
  assumes "derive_point color (Some t) prev_point prev_red_point cur = Inr r"
  shows "\<exists>p. r = Some p \<and> point_x p = timestamp t"
  using assms unfolding derive_point_def
  by (auto split: option.splits if_splits)

lemma datum_step_other_loc:
  assumes "datum_step l stored datum = Inr stored1" and "loc \<noteq> l"
  shows "points_at stored1 loc color = points_at stored loc color"
proof -
  from assms(1) obtain s1 c1 s2 c2 c3 where
    g: "color_step l datum (stored, Map.empty) GREEN = Inr (s1, c1)" and
    y: "color_step l datum (s1, c1) YELLOW = Inr (s2, c2)" and
    r: "color_step l datum (s2, c2) RED = Inr (stored1, c3)"
    unfolding datum_step_unfold by blast
  from color_step_other[OF g, of loc color] color_step_other[OF y, of loc color]
    color_step_other[OF r, of loc color] assms(2)
  show ?thesis by simp
qed

section \<open>Bounded histories\<close>

lemma datum_step_evicts:
  assumes "datum_step loc stored datum = Inr stored1"
  shows "(points_at stored loc color = [] \<and> datum color = None \<and> points_at stored1 loc color = [])
       \<or> (\<exists>p. points_at stored1 loc color = evict_oldest (points_at stored loc color) @ [p])"
proof -
  from datum_step_color[OF assms, of color] obtain r cur where
    d: "derive_point color (datum color) (last_or_None (points_at stored loc color))
          (last_or_None (points_at stored loc RED)) cur = Inr r" and
    p: "points_at stored1 loc color =
          (case r of None \<Rightarrow> points_at stored loc color
           | Some p \<Rightarrow> append_and_trim (points_at stored loc color) p)"
    by blast
  show ?thesis
  proof (cases "datum color")
    case None
    with d have r: "r = last_or_None (points_at stored loc color)"
      by (simp add: derive_point_absent)
    show ?thesis
    proof (cases "points_at stored loc color = []")
      case True
      with r p None show ?thesis by (simp add: last_or_None_def)
    next
      case False
      with r p show ?thesis by (simp add: last_or_None_def append_and_trim_eq)
    qed
  next
    case (Some t)
    with d obtain q where "r = Some q"
      using derive_point_Some by metis
    with p show ?thesis by (simp add: append_and_trim_eq)
  qed
qed

lemma last_three_short: "length xs \<le> 3 \<Longrightarrow> last_three xs = xs"
  by (simp add: last_three_def)

lemma length_last_three: "length (last_three xs) \<le> 3"
  by (simp add: last_three_def)

lemma last_three_not_Nil: "xs \<noteq> [] \<Longrightarrow> last_three xs \<noteq> []"
  by (cases xs) (simp_all add: last_three_def)

lemma last_three_append: "last_three (last_three xs @ ys) = last_three (xs @ ys)"
proof (cases "length xs \<le> 3")
  case True
  then show ?thesis by (simp add: last_three_short)
next
  case False
  then have l: "length (drop (length xs - 3) xs) = 3" by simp
  have "last_three (last_three xs @ ys) = drop (length ys) (drop (length xs - 3) xs @ ys)"
    unfolding last_three_def length_append l by simp
  also have "\<dots> = drop (length ys + (length xs - 3)) xs @ drop (length ys - 3) ys"
  proof -
    from False have "length ys + (length xs - 3) - length xs = length ys - 3"
      by arith
    then show ?thesis by simp
  qed
  also have "\<dots> = drop (length xs + length ys - 3) (xs @ ys)"
  proof -
    from False have a: "length ys + (length xs - 3) = length xs + length ys - 3"
      and b: "length xs + length ys - 3 - length xs = length ys - 3"
      by arith+
    show ?thesis by (simp only: drop_append a b)
  qed
  finally show ?thesis by (simp add: last_three_def)
qed

lemma evict_oldest_last_three:
  assumes "length xs \<le> 3"
  shows "evict_oldest xs @ [x] = last_three (xs @ [x])"
proof (cases "length xs = 3")
  case True
  then have "xs \<noteq> []" by auto
  then have "tl xs @ [x] = drop 1 (xs @ [x])" by (cases xs) simp_all
  with True show ?thesis by (simp add: evict_oldest_def last_three_def)
next
  case False
  with assms show ?thesis by (simp add: evict_oldest_def last_three_def)
qed

lemma extended_by_refl: "length xs \<le> 3 \<Longrightarrow> extended_by 0 xs xs"
  by (simp add: extended_by_def last_three_short)

lemma extended_by_trans:
  assumes "extended_by n xs ys" and "extended_by m ys zs"
  shows "extended_by (n + m) xs zs"
proof -
  from assms(1) obtain ps where ps: "length ps \<le> n" "xs \<noteq> [] \<longrightarrow> length ps = n"
    "ys = last_three (xs @ ps)"
    unfolding extended_by_def by blast
  from assms(2) obtain qs where qs: "length qs \<le> m" "ys \<noteq> [] \<longrightarrow> length qs = m"
    "zs = last_three (ys @ qs)"
    unfolding extended_by_def by blast
  have z: "zs = last_three (xs @ (ps @ qs))"
    unfolding qs(3) ps(3) last_three_append by simp
  have l: "length (ps @ qs) \<le> n + m"
    using ps(1) qs(1) by simp
  have e: "length (ps @ qs) = n + m" if "xs \<noteq> []"
  proof -
    from that have "ys \<noteq> []" unfolding ps(3) by (intro last_three_not_Nil) simp
    with that ps(2) qs(2) show ?thesis by simp
  qed
  from z l e show ?thesis unfolding extended_by_def by blast
qed

lemma extended_by_length: "extended_by n xs ys \<Longrightarrow> length ys \<le> 3"
  by (auto simp: extended_by_def length_last_three)

lemma datum_step_extended:
  assumes "datum_step l stored datum = Inr stored1"
    and "length (points_at stored loc color) \<le> 3"
  shows "extended_by (if l = loc then 1 else 0)
           (points_at stored loc color) (points_at stored1 loc color)"
proof (cases "l = loc")
  case False
  then have "loc \<noteq> l" by simp
  from datum_step_other_loc[OF assms(1) this, of color] assms(2) False
  show ?thesis by (simp add: extended_by_refl)
next
  case True
  from datum_step_evicts[OF assms(1)[unfolded True], of color]
  show ?thesis
  proof
    assume "points_at stored loc color = [] \<and> datum color = None \<and> points_at stored1 loc color = []"
    then show ?thesis
      unfolding extended_by_def using True
      by (intro exI[of _ "[]"]) (simp add: last_three_def)
  next
    assume "\<exists>p. points_at stored1 loc color = evict_oldest (points_at stored loc color) @ [p]"
    then obtain p where
      "points_at stored1 loc color = evict_oldest (points_at stored loc color) @ [p]" by blast
    with evict_oldest_last_three[OF assms(2), of p] True show ?thesis
      unfolding extended_by_def by (intro exI[of _ "[p]"]) simp
  qed
qed

lemma datum_loop_extended:
  assumes "for_loop (datum_step l) stored data = Inr stored1"
    and "length (points_at stored loc color) \<le> 3"
  shows "extended_by (if l = loc then length data else 0)
           (points_at stored loc color) (points_at stored1 loc color)"
  using assms
proof (induction data arbitrary: stored)
  case Nil
  then show ?case by (simp add: extended_by_refl)
next
  case (Cons datum data)
  from Cons.prems(1) obtain s1 where
    d: "datum_step l stored datum = Inr s1" and r: "for_loop (datum_step l) s1 data = Inr stored1"
    by (auto split: sum.splits)
  from datum_step_extended[OF d Cons.prems(2)]
  have e1: "extended_by (if l = loc then 1 else 0)
              (points_at stored loc color) (points_at s1 loc color)" .
  from Cons.IH[OF r extended_by_length[OF e1]]
  have e2: "extended_by (if l = loc then length data else 0)
              (points_at s1 loc color) (points_at stored1 loc color)" .
  from extended_by_trans[OF e1 e2] show ?case by (simp split: if_splits)
qed

lemma update_extended:
  assumes "update_stored_cycle_points stored all_cycle_data = Inr stored1"
    and "length (points_at stored loc color) \<le> 3"
  shows "extended_by (length (records_for all_cycle_data loc))
           (points_at stored loc color) (points_at stored1 loc color)"
  using assms unfolding update_stored_cycle_points_def
proof (induction all_cycle_data arbitrary: stored)
  case Nil
  then show ?case by (simp add: records_for_def extended_by_refl)
next
  case (Cons item all_cycle_data)
  obtain l data where item: "item = (l, data)" by (cases item)
  from Cons.prems(1) item obtain s1 where
    d: "for_loop (datum_step l) stored data = Inr s1" and
    r: "for_loop (\<lambda>stored (loc, data). for_loop (datum_step loc) stored data) s1 all_cycle_data
          = Inr stored1"
    by (auto split: sum.splits)
  from datum_loop_extended[OF d Cons.prems(2)]
  have e1: "extended_by (if l = loc then length data else 0)
              (points_at stored loc color) (points_at s1 loc color)" .
  from Cons.IH[OF r extended_by_length[OF e1]]
  have e2: "extended_by (length (records_for all_cycle_data loc))
              (points_at s1 loc color) (points_at stored1 loc color)" .
  from extended_by_trans[OF e1 e2] show ?case
    by (simp add: records_for_def item split: if_splits)
qed

lemma batches_at_update:
  assumes "length (batches_at stored_events loc) \<le> 3"
  shows "batches_at (update_stored_events stored_events all_new_events) loc =
           last_three (batches_at stored_events loc @ batches_for all_new_events loc)"
  using assms unfolding update_stored_events_def
proof (induction all_new_events arbitrary: stored_events)
  case Nil
  then show ?case by (simp add: batches_for_def last_three_short)
next
  case (Cons item all_new_events)
  obtain l events where item: "item = (l, events)" by (cases item)
  let ?bs = "if l = loc then [map timestamp events] else []"
  have s: "batches_at (events_step stored_events item) loc =
             last_three (batches_at stored_events loc @ ?bs)"
  proof (cases "l = loc")
    case True
    with evict_oldest_last_three[OF Cons.prems, of "map timestamp events"] show ?thesis
      unfolding item batches_at_events_step by simp
  next
    case False
    with Cons.prems show ?thesis
      unfolding item batches_at_events_step by (simp add: last_three_short)
  qed
  then have "length (batches_at (events_step stored_events item) loc) \<le> 3"
    by (simp add: length_last_three)
  from Cons.IH[OF this]
  have "batches_at (foldl events_step (events_step stored_events item) all_new_events) loc =
          last_three (batches_at stored_events loc @ ?bs @ batches_for all_new_events loc)"
    unfolding s last_three_append by simp
  then show ?case
    by (simp add: batches_for_def item)
qed

text \<open>
  Claim C1.  In every history the program can hold, starting from empty histories and
  updated by any sequence of calls of \<^verbatim>\<open>update_stored_cycle_points\<close> and
  \<^verbatim>\<open>update_stored_events\<close> (and flushed by \<^verbatim>\<open>write_events\<close> in between), the list of
  points of every location and color holds at most three points and the list of event
  batches of every location holds at most three batches.  The oldest entry goes first.
  A cycle record appends one point to the list of a color after dropping the first point
  when three are held; only when the list is empty and the record has no time for the
  color does it append nothing.  An event update appends the new batch after dropping
  the first batch when three are held.  For a snapshot of any number of locations and
  records, the list after the update is the last three entries of the list before it
  followed by the appended points, one for each record of the location when the list
  was not empty; and the list of batches is the last three of the batches before the
  update followed by the batches of the snapshot for the location.
\<close>

theorem history_bounded_oldest_evicted:
  assumes "reachable (stored_cycle_points, stored_events)"
  shows "length (points_at stored_cycle_points loc color) \<le> 3
       \<and> length (batches_at stored_events loc) \<le> 3
       \<and> (\<forall>datum stored1.
            update_stored_cycle_points stored_cycle_points [(loc, [datum])] = Inr stored1 \<longrightarrow>
              (points_at stored_cycle_points loc color = [] \<and> datum color = None \<and>
               points_at stored1 loc color = []) \<or>
              (\<exists>p. points_at stored1 loc color =
                     evict_oldest (points_at stored_cycle_points loc color) @ [p]))
       \<and> (\<forall>events.
            batches_at (update_stored_events stored_events [(loc, events)]) loc =
              evict_oldest (batches_at stored_events loc) @ [map timestamp events])
       \<and> (\<forall>all_cycle_data stored1.
            update_stored_cycle_points stored_cycle_points all_cycle_data = Inr stored1 \<longrightarrow>
              (\<exists>ps. length ps \<le> length (records_for all_cycle_data loc) \<and>
                    (points_at stored_cycle_points loc color \<noteq> [] \<longrightarrow>
                       length ps = length (records_for all_cycle_data loc)) \<and>
                    points_at stored1 loc color =
                      last_three (points_at stored_cycle_points loc color @ ps)))
       \<and> (\<forall>all_new_events.
            batches_at (update_stored_events stored_events all_new_events) loc =
              last_three (batches_at stored_events loc @ batches_for all_new_events loc))"
proof -
  from reachable_bounded[OF assms]
  have b: "bounded stored_cycle_points" and e: "events_bounded stored_events"
    by simp_all
  have 1: "length (points_at stored_cycle_points loc color) \<le> 3"
    using b by (simp add: bounded_def)
  have 2: "length (batches_at stored_events loc) \<le> 3"
    using e by (simp add: events_bounded_def)
  have 3: "\<forall>datum stored1.
            update_stored_cycle_points stored_cycle_points [(loc, [datum])] = Inr stored1 \<longrightarrow>
              (points_at stored_cycle_points loc color = [] \<and> datum color = None \<and>
               points_at stored1 loc color = []) \<or>
              (\<exists>p. points_at stored1 loc color =
                     evict_oldest (points_at stored_cycle_points loc color) @ [p])"
    unfolding update_single_record using datum_step_evicts by blast
  have 4: "\<forall>events.
            batches_at (update_stored_events stored_events [(loc, events)]) loc =
              evict_oldest (batches_at stored_events loc) @ [map timestamp events]"
    by (simp add: update_stored_events_def batches_at_events_step)
  have 5: "\<forall>all_cycle_data stored1.
            update_stored_cycle_points stored_cycle_points all_cycle_data = Inr stored1 \<longrightarrow>
              (\<exists>ps. length ps \<le> length (records_for all_cycle_data loc) \<and>
                    (points_at stored_cycle_points loc color \<noteq> [] \<longrightarrow>
                       length ps = length (records_for all_cycle_data loc)) \<and>
                    points_at stored1 loc color =
                      last_three (points_at stored_cycle_points loc color @ ps))"
    using update_extended[OF _ 1] unfolding extended_by_def by blast
  have 6: "\<forall>all_new_events.
            batches_at (update_stored_events stored_events all_new_events) loc =
              last_three (batches_at stored_events loc @ batches_for all_new_events loc)"
    using batches_at_update[OF 2] by blast
  from 1 2 3 4 5 6 show ?thesis by blast
qed

theorem history_bounded_oldest_evicted_witness:
  "reachable
     ([(Location 1 ''N'' ''T'',
        [(GREEN, []), (RED, [Point 100 40, Point 160 40, Point 220 40]), (YELLOW, [])])],
      [(Location 1 ''N'' ''T'', [[61], [121, 125], [185]])])
   \<and> update_stored_cycle_points
       [(Location 1 ''N'' ''T'',
         [(GREEN, []), (RED, [Point 100 40, Point 160 40, Point 220 40]), (YELLOW, [])])]
       [(Location 1 ''N'' ''T'', [(\<lambda>c. None)(RED := Some 280)])]
     = Inr [(Location 1 ''N'' ''T'',
         [(GREEN, []), (RED, [Point 160 40, Point 220 40, Point 280 40]), (YELLOW, [])])]
   \<and> (\<exists>p. [Point 160 40, Point 220 40, Point 280 40]
            = evict_oldest [Point 100 40, Point 160 40, Point 220 40] @ [p])
   \<and> update_stored_cycle_points
       [(Location 1 ''N'' ''T'',
         [(GREEN, []), (RED, [Point 100 40, Point 160 40, Point 220 40]), (YELLOW, [])])]
       [(Location 2 ''S'' ''L'', [(\<lambda>c. None)(RED := Some 275)]),
        (Location 1 ''N'' ''T'', [(\<lambda>c. None)(RED := Some 280), (\<lambda>c. None)(RED := Some 340)])]
     = Inr [(Location 1 ''N'' ''T'',
         [(GREEN, []), (RED, [Point 220 40, Point 280 40, Point 340 40]), (YELLOW, [])]),
        (Location 2 ''S'' ''L'', [(GREEN, []), (RED, [Point 275 35]), (YELLOW, [])])]
   \<and> (\<exists>ps. length ps = 2 \<and>
          [Point 220 40, Point 280 40, Point 340 40]
            = last_three ([Point 100 40, Point 160 40, Point 220 40] @ ps))
   \<and> length (points_at
        [(Location 1 ''N'' ''T'',
          [(GREEN, []), (RED, [Point 100 40, Point 160 40, Point 220 40]), (YELLOW, [])])]
        (Location 1 ''N'' ''T'') RED) \<le> 3
   \<and> length (batches_at [(Location 1 ''N'' ''T'', [[61], [121, 125], [185]])]
        (Location 1 ''N'' ''T'')) \<le> 3
   \<and> batches_at
       (update_stored_events [(Location 1 ''N'' ''T'', [[61], [121, 125], [185]])]
          [(Location 1 ''N'' ''T'', [241, 250])])
       (Location 1 ''N'' ''T'')
     = [[121, 125], [185], [241, 250]]"
proof -
  let ?loc = "Location 1 ''N'' ''T''"
  let ?old = "[Point 100 40, Point 160 40, Point 220 40]"
  let ?S = "[(?loc, [(GREEN, []), (RED, ?old), (YELLOW, [])])]"
  let ?E = "[(?loc, [[61], [121, 125], [185]])]"
  let ?D2 = "[(Location 2 ''S'' ''L'', [(\<lambda>c. None)(RED := Some (275 :: rat))]),
              (?loc, [(\<lambda>c. None)(RED := Some 280), (\<lambda>c. None)(RED := Some 340)])]"
  let ?S2 = "[(?loc, [(GREEN, []), (RED, [Point 220 40, Point 280 40, Point 340 40]), (YELLOW, [])]),
              (Location 2 ''S'' ''L'', [(GREEN, []), (RED, [Point 275 35]), (YELLOW, [])])]"
  let ?S1 = "[(?loc, [(GREEN, []), (RED, [Point 160 40, Point 220 40, Point 280 40]), (YELLOW, [])])]"
  have s: "update_stored_cycle_points []
             [(?loc, [(\<lambda>c. None)(RED := Some 100), (\<lambda>c. None)(RED := Some 160),
                      (\<lambda>c. None)(RED := Some 220)])] = Inr ?S"
    by code_simp
  have e: "update_stored_events (update_stored_events (update_stored_events []
             [(?loc, [61])]) [(?loc, [121, 125])]) [(?loc, [185])] = ?E"
    by code_simp
  have "reachable (?S, [])"
    by (rule reachable.cycle_update[OF reachable.start s])
  then have "reachable (?S, update_stored_events (update_stored_events (update_stored_events []
             [(?loc, [61])]) [(?loc, [121, 125])]) [(?loc, [185])])"
    by (intro reachable.events_update)
  then have r: "reachable (?S, ?E)"
    by (simp only: e)
  have u: "update_stored_cycle_points ?S [(?loc, [(\<lambda>c. None)(RED := Some 280)])] = Inr ?S1"
    by code_simp
  have u2: "update_stored_cycle_points ?S ?D2 = Inr ?S2"
    by code_simp
  have p: "points_at ?S ?loc RED = ?old" "points_at ?S ?loc RED \<noteq> []"
    "points_at ?S1 ?loc RED = [Point 160 40, Point 220 40, Point 280 40]"
    "points_at ?S2 ?loc RED = [Point 220 40, Point 280 40, Point 340 40]"
    by (simp_all add: points_at_def)
  have n: "length (records_for ?D2 ?loc) = 2"
    by (simp add: records_for_def)
  have ev: "evict_oldest (batches_at ?E ?loc) @ [map timestamp [241, 250]]
         = [[121, 125], [185], [241, 250]]"
    by code_simp
  note t = history_bounded_oldest_evicted[OF r, of ?loc RED]
  from t have "length (points_at ?S ?loc RED) \<le> 3" and "length (batches_at ?E ?loc) \<le> 3"
    and "batches_at (update_stored_events ?E [(?loc, [241, 250])]) ?loc
           = evict_oldest (batches_at ?E ?loc) @ [map timestamp [241, 250]]"
    by blast+
  moreover from t u p
  have "\<exists>p. [Point 160 40, Point 220 40, Point 280 40] = evict_oldest ?old @ [p]"
    by (metis (no_types, lifting))
  moreover from t u2 p n
  have "\<exists>ps. length ps = 2 \<and>
          [Point 220 40, Point 280 40, Point 340 40] = last_three (?old @ ps)"
    by (metis (no_types, lifting))
  ultimately show ?thesis using r u u2 ev by simp
qed

section \<open>The derivation rules on one cycle record\<close>

text \<open>A record that does not meet the GREEN-without-RED failure is processed to the end;
  a color without a time repeats its last point, and a color seen for the first time gets
  the point of its time and of the seconds of its minute.\<close>

lemma record_absent_or_first:
  assumes "\<not> green_without_red stored loc datum"
  shows "\<exists>stored1.
           update_stored_cycle_points stored [(loc, [datum])] = Inr stored1 \<and>
           (\<forall>color. datum color = None \<longrightarrow>
              points_at stored1 loc color =
                (if points_at stored loc color = [] then []
                 else evict_oldest (points_at stored loc color) @ [last (points_at stored loc color)])) \<and>
           (\<forall>color t. datum color = Some t \<longrightarrow> points_at stored loc color = [] \<longrightarrow>
              points_at stored1 loc color = [Point (timestamp t) (second t)])"
proof -
  from datum_step_returns[OF assms] obtain stored1 where
    s: "datum_step loc stored datum = Inr stored1" by blast
  have a: "points_at stored1 loc color =
             (if points_at stored loc color = [] then []
              else evict_oldest (points_at stored loc color) @ [last (points_at stored loc color)])"
    if "datum color = None" for color
  proof -
    from datum_step_color[OF s, of color] obtain r cur where
      d: "derive_point color (datum color) (last_or_None (points_at stored loc color))
            (last_or_None (points_at stored loc RED)) cur = Inr r" and
      p: "points_at stored1 loc color =
            (case r of None \<Rightarrow> points_at stored loc color
             | Some p \<Rightarrow> append_and_trim (points_at stored loc color) p)"
      by blast
    from d that have "r = last_or_None (points_at stored loc color)"
      by (simp add: derive_point_absent)
    with p show ?thesis
      by (simp add: last_or_None_def append_and_trim_eq)
  qed
  have b: "points_at stored1 loc color = [Point (timestamp t) (second t)]"
    if "datum color = Some t" and "points_at stored loc color = []" for color t
  proof -
    from datum_step_color[OF s, of color] obtain r cur where
      d: "derive_point color (datum color) (last_or_None (points_at stored loc color))
            (last_or_None (points_at stored loc RED)) cur = Inr r" and
      p: "points_at stored1 loc color =
            (case r of None \<Rightarrow> points_at stored loc color
             | Some p \<Rightarrow> append_and_trim (points_at stored loc color) p)"
      by blast
    from d that have "r = Some (Point (timestamp t) (second t))"
      by (simp add: derive_point_first last_or_None_def)
    with p that(2) show ?thesis
      by (simp add: append_and_trim_def)
  qed
  from s a b show ?thesis unfolding update_single_record by blast
qed

lemma color_step_returns:
  assumes "derived loc datum stored cur color = Inr r"
  shows "\<exists>stored1.
           color_step loc datum (stored, cur) color =
             Inr (stored1, case r of None \<Rightarrow> cur | Some p \<Rightarrow> cur(color \<mapsto> p)) \<and>
           points_at stored1 loc color =
             (case r of None \<Rightarrow> points_at stored loc color
              | Some p \<Rightarrow> append_and_trim (points_at stored loc color) p)"
proof (cases r)
  case None
  with assms show ?thesis
    by (simp add: color_step_eq points_at_getitem2)
next
  case (Some p)
  with assms show ?thesis
    by (simp add: color_step_eq points_at_setitem2)
qed

text \<open>
  Claim C3.  With a GREEN time in the record, a GREEN point stored and no RED point
  stored, the claim expects the bootstrap point and no error.  The code raises instead:
  the GREEN branch reads \<^verbatim>\<open>prev_red_point.x\<close> without testing \<^verbatim>\<open>prev_red_point\<close>.  Here
  GREEN is seen at 100 in a first record and at 160 in a second one, with no RED seen
  yet; the second record raises \<^verbatim>\<open>AttributeError\<close>, from the stored history and also when
  both records come in one call.
\<close>

theorem green_without_red_raises:
  "update_stored_cycle_points []
     [(Location 1 ''N'' ''T'', [(\<lambda>c. None)(GREEN := Some 100)])]
   = Inr [(Location 1 ''N'' ''T'', [(GREEN, [Point 100 40]), (RED, []), (YELLOW, [])])]
   \<and> update_stored_cycle_points
       [(Location 1 ''N'' ''T'', [(GREEN, [Point 100 40]), (RED, []), (YELLOW, [])])]
       [(Location 1 ''N'' ''T'', [(\<lambda>c. None)(GREEN := Some 160)])]
     = Inl AttributeError
   \<and> update_stored_cycle_points []
       [(Location 1 ''N'' ''T'', [(\<lambda>c. None)(GREEN := Some 100), (\<lambda>c. None)(GREEN := Some 160)])]
     = Inl AttributeError"
  by code_simp

text \<open>
  The two rules that do not read the other colors.  The iteration of the loop for a color
  without a time never raises: it appends the last stored point again, or nothing when
  no point is stored.  The iteration for a color seen for the first time never raises
  and stores the point of its time and of the seconds of its minute.  A whole call on
  one record gives these results when the record does not meet the GREEN-without-RED
  failure, which is raised in the GREEN iteration, before YELLOW and RED are reached.
\<close>

lemma carry_forward_rule:
  assumes "datum color = None"
  shows "(\<exists>stored1.
            color_step loc datum (stored, cur) color =
              Inr (stored1,
                   if points_at stored loc color = [] then cur
                   else cur(color \<mapsto> last (points_at stored loc color))) \<and>
            points_at stored1 loc color =
              (if points_at stored loc color = [] then []
               else evict_oldest (points_at stored loc color) @ [last (points_at stored loc color)]))
       \<and> (\<not> green_without_red stored loc datum \<longrightarrow>
           (\<exists>stored1.
              update_stored_cycle_points stored [(loc, [datum])] = Inr stored1 \<and>
              points_at stored1 loc color =
                (if points_at stored loc color = [] then []
                 else evict_oldest (points_at stored loc color)
                        @ [last (points_at stored loc color)])))"
proof -
  have d: "derived loc datum stored cur color = Inr (last_or_None (points_at stored loc color))"
    using assms by (simp add: derived_def derive_point_absent)
  have 1: "\<exists>stored1.
            color_step loc datum (stored, cur) color =
              Inr (stored1,
                   if points_at stored loc color = [] then cur
                   else cur(color \<mapsto> last (points_at stored loc color))) \<and>
            points_at stored1 loc color =
              (if points_at stored loc color = [] then []
               else evict_oldest (points_at stored loc color) @ [last (points_at stored loc color)])"
    using color_step_returns[OF d]
    by (cases "points_at stored loc color = []")
       (simp_all add: last_or_None_def append_and_trim_eq)
  have 2: "\<not> green_without_red stored loc datum \<longrightarrow>
           (\<exists>stored1.
              update_stored_cycle_points stored [(loc, [datum])] = Inr stored1 \<and>
              points_at stored1 loc color =
                (if points_at stored loc color = [] then []
                 else evict_oldest (points_at stored loc color)
                        @ [last (points_at stored loc color)]))"
    using record_absent_or_first[of stored loc datum] assms by blast
  from 1 2 show ?thesis by blast
qed

lemma bootstrap_rule:
  assumes "datum color = Some t" and "points_at stored loc color = []"
  shows "(\<exists>stored1.
            color_step loc datum (stored, cur) color =
              Inr (stored1, cur(color \<mapsto> Point (timestamp t) (second t))) \<and>
            points_at stored1 loc color = [Point (timestamp t) (second t)])
       \<and> (\<not> green_without_red stored loc datum \<longrightarrow>
           (\<exists>stored1.
              update_stored_cycle_points stored [(loc, [datum])] = Inr stored1 \<and>
              points_at stored1 loc color = [Point (timestamp t) (second t)]))"
proof -
  have d: "derived loc datum stored cur color = Inr (Some (Point (timestamp t) (second t)))"
    using assms by (simp add: derived_def derive_point_first last_or_None_def)
  have 1: "\<exists>stored1.
            color_step loc datum (stored, cur) color =
              Inr (stored1, cur(color \<mapsto> Point (timestamp t) (second t))) \<and>
            points_at stored1 loc color = [Point (timestamp t) (second t)]"
    using color_step_returns[OF d] assms(2)
    by (simp add: append_and_trim_def)
  have 2: "\<not> green_without_red stored loc datum \<longrightarrow>
           (\<exists>stored1.
              update_stored_cycle_points stored [(loc, [datum])] = Inr stored1 \<and>
              points_at stored1 loc color = [Point (timestamp t) (second t)])"
    using record_absent_or_first[of stored loc datum] assms by blast
  from 1 2 show ?thesis by blast
qed

text \<open>
  Claim C5 (carry-forward).  The claim expects, for every record without a time for a
  color that has a stored point, a new point equal to the last stored one.  The code
  does not do so for YELLOW and RED when the record meets the failure of claim C3: the
  GREEN iteration raises first and the later colors are not processed.  Here a first
  record brings GREEN at 100 and YELLOW at 105; the second record brings GREEN at 160 and
  no YELLOW time, while the YELLOW point \<open>(105, 45)\<close> is stored; the call raises
  \<^verbatim>\<open>AttributeError\<close> and no YELLOW point is appended.
\<close>

theorem carry_forward_preempted:
  "update_stored_cycle_points []
     [(Location 1 ''N'' ''T'', [(\<lambda>c. None)(GREEN := Some 100, YELLOW := Some 105)])]
   = Inr [(Location 1 ''N'' ''T'',
       [(GREEN, [Point 100 40]), (RED, []), (YELLOW, [Point 105 45])])]
   \<and> points_at
       [(Location 1 ''N'' ''T'', [(GREEN, [Point 100 40]), (RED, []), (YELLOW, [Point 105 45])])]
       (Location 1 ''N'' ''T'') YELLOW = [Point 105 45]
   \<and> ((\<lambda>c. None)(GREEN := Some (160 :: rat))) YELLOW = None
   \<and> update_stored_cycle_points
       [(Location 1 ''N'' ''T'', [(GREEN, [Point 100 40]), (RED, []), (YELLOW, [Point 105 45])])]
       [(Location 1 ''N'' ''T'', [(\<lambda>c. None)(GREEN := Some 160)])]
     = Inl AttributeError"
proof -
  have "update_stored_cycle_points []
     [(Location 1 ''N'' ''T'', [(\<lambda>c. None)(GREEN := Some 100, YELLOW := Some 105)])]
   = Inr [(Location 1 ''N'' ''T'',
       [(GREEN, [Point 100 40]), (RED, []), (YELLOW, [Point 105 45])])]"
    by code_simp
  moreover have "points_at
       [(Location 1 ''N'' ''T'', [(GREEN, [Point 100 40]), (RED, []), (YELLOW, [Point 105 45])])]
       (Location 1 ''N'' ''T'') YELLOW = [Point 105 45]"
    by (simp add: points_at_def)
  moreover have "((\<lambda>c. None)(GREEN := Some (160 :: rat))) YELLOW = None"
    by simp
  moreover have "update_stored_cycle_points
       [(Location 1 ''N'' ''T'', [(GREEN, [Point 100 40]), (RED, []), (YELLOW, [Point 105 45])])]
       [(Location 1 ''N'' ''T'', [(\<lambda>c. None)(GREEN := Some 160)])]
     = Inl AttributeError"
    by code_simp
  ultimately show ?thesis by blast
qed

text \<open>
  Claim C6 (bootstrap).  The claim expects, for the first observation of a color, the
  point of its time and of the seconds of its minute.  The code does not store it for
  YELLOW and RED when the record meets the failure of claim C3: the GREEN iteration
  raises first.  Here a first record brings GREEN at 100; the second record brings GREEN
  at 160 and RED at 170, the first RED time ever, while no RED point is stored; the call
  raises \<^verbatim>\<open>AttributeError\<close> and the RED point \<open>(170, 50)\<close> is not stored.
\<close>

theorem bootstrap_preempted:
  "update_stored_cycle_points []
     [(Location 1 ''N'' ''T'', [(\<lambda>c. None)(GREEN := Some 100)])]
   = Inr [(Location 1 ''N'' ''T'', [(GREEN, [Point 100 40]), (RED, []), (YELLOW, [])])]
   \<and> points_at
       [(Location 1 ''N'' ''T'', [(GREEN, [Point 100 40]), (RED, []), (YELLOW, [])])]
       (Location 1 ''N'' ''T'') RED = []
   \<and> ((\<lambda>c. None)(GREEN := Some (160 :: rat), RED := Some 170)) RED = Some 170
   \<and> update_stored_cycle_points
       [(Location 1 ''N'' ''T'', [(GREEN, [Point 100 40]), (RED, []), (YELLOW, [])])]
       [(Location 1 ''N'' ''T'', [(\<lambda>c. None)(GREEN := Some 160, RED := Some 170)])]
     = Inl AttributeError"
proof -
  have "update_stored_cycle_points []
     [(Location 1 ''N'' ''T'', [(\<lambda>c. None)(GREEN := Some 100)])]
   = Inr [(Location 1 ''N'' ''T'', [(GREEN, [Point 100 40]), (RED, []), (YELLOW, [])])]"
    by code_simp
  moreover have "points_at
       [(Location 1 ''N'' ''T'', [(GREEN, [Point 100 40]), (RED, []), (YELLOW, [])])]
       (Location 1 ''N'' ''T'') RED = []"
    by (simp add: points_at_def)
  moreover have "((\<lambda>c. None)(GREEN := Some (160 :: rat), RED := Some 170)) RED = Some 170"
    by simp
  moreover have "update_stored_cycle_points
       [(Location 1 ''N'' ''T'', [(GREEN, [Point 100 40]), (RED, []), (YELLOW, [])])]
       [(Location 1 ''N'' ''T'', [(\<lambda>c. None)(GREEN := Some 160, RED := Some 170)])]
     = Inl AttributeError"
    by code_simp
  ultimately show ?thesis by blast
qed

text \<open>
  Claim C4 (chaining), as stated: with the last stored RED point \<open>(100, 5)\<close>, a record
  with GREEN at 130 gives the GREEN point \<open>(130, 30)\<close> and YELLOW at 135 gives
  \<open>(135, 35)\<close>.  This fails when no YELLOW point is stored yet, as the first-observation
  rule comes first in the chain.  Three records, RED at 95, then GREEN at 96, then GREEN
  at 97 with RED at 100, lead from the empty history to one whose last RED point is
  \<open>(100, 5)\<close> and that holds no YELLOW point; the record with GREEN at 130 and YELLOW
  at 135 then gives the YELLOW point \<open>(135, 15)\<close>.
\<close>

theorem chaining_counterexample:
  "update_stored_cycle_points []
     [(Location 1 ''N'' ''T'',
       [(\<lambda>c. None)(RED := Some 95), (\<lambda>c. None)(GREEN := Some 96),
        (\<lambda>c. None)(GREEN := Some 97, RED := Some 100)])]
   = Inr [(Location 1 ''N'' ''T'',
       [(GREEN, [Point 96 36, Point 97 2]),
        (RED, [Point 95 35, Point 95 35, Point 100 5]), (YELLOW, [])])]
   \<and> update_stored_cycle_points
       [(Location 1 ''N'' ''T'',
         [(GREEN, [Point 96 36, Point 97 2]),
          (RED, [Point 95 35, Point 95 35, Point 100 5]), (YELLOW, [])])]
       [(Location 1 ''N'' ''T'', [(\<lambda>c. None)(GREEN := Some 130, YELLOW := Some 135)])]
     = Inr [(Location 1 ''N'' ''T'',
         [(GREEN, [Point 96 36, Point 97 2, Point 130 30]),
          (RED, [Point 95 35, Point 100 5, Point 100 5]), (YELLOW, [Point 135 15])])]
   \<and> Point 135 15 \<noteq> Point 135 35"
  by code_simp

text \<open>
  Claim C4, amended.  When a GREEN point and a YELLOW point are already stored for the
  location and the last stored RED point is \<open>prev_red\<close>, a record with GREEN at \<open>tg\<close> and
  YELLOW at \<open>ty\<close> appends the GREEN point \<open>(tg, tg - x prev_red)\<close> and the YELLOW point
  \<open>(ty, y + (ty - tg))\<close> with \<open>y\<close> the \<open>y\<close> of that GREEN point: the colors of a record
  are processed in the order GREEN, YELLOW, RED, and YELLOW reads the GREEN point of the
  same record.  With \<open>prev_red = (100, 5)\<close>, \<open>tg = 130\<close> and \<open>ty = 135\<close> the points are
  \<open>(130, 30)\<close> and \<open>(135, 35)\<close>.
\<close>

theorem chaining_within_cycle:
  assumes "points_at stored loc RED \<noteq> []" and "last (points_at stored loc RED) = prev_red"
    and "points_at stored loc GREEN \<noteq> []" and "points_at stored loc YELLOW \<noteq> []"
    and "datum GREEN = Some tg" and "datum YELLOW = Some ty"
  shows "TLColor_members = [GREEN, YELLOW, RED]
       \<and> (\<exists>stored1.
            update_stored_cycle_points stored [(loc, [datum])] = Inr stored1 \<and>
            points_at stored1 loc GREEN =
              evict_oldest (points_at stored loc GREEN)
                @ [Point (timestamp tg) (timestamp tg - point_x prev_red)] \<and>
            points_at stored1 loc YELLOW =
              evict_oldest (points_at stored loc YELLOW)
                @ [Point (timestamp ty)
                     ((timestamp tg - point_x prev_red) + timestamp ty - timestamp tg)])"
proof -
  have "\<not> green_without_red stored loc datum"
    using assms(1) by (simp add: green_without_red_def)
  from datum_step_returns[OF this] obtain stored1 where
    s: "datum_step loc stored datum = Inr stored1" by blast
  then obtain s1 c1 s2 c2 c3 where
    g: "color_step loc datum (stored, Map.empty) GREEN = Inr (s1, c1)" and
    y: "color_step loc datum (s1, c1) YELLOW = Inr (s2, c2)" and
    r: "color_step loc datum (s2, c2) RED = Inr (stored1, c3)"
    unfolding datum_step_unfold by blast
  let ?pg = "Point (timestamp tg) (timestamp tg - point_x prev_red)"
  let ?py = "Point (timestamp ty) ((timestamp tg - point_x prev_red) + timestamp ty - timestamp tg)"
  have dg: "derived loc datum stored Map.empty GREEN = Inr (Some ?pg)"
    using assms by (simp add: derived_def derive_point_def last_or_None_def)
  from g have g1: "c1 = [GREEN \<mapsto> ?pg]"
    and g2: "points_at s1 loc GREEN = append_and_trim (points_at stored loc GREEN) ?pg"
    by (cases rule: color_step_cases; simp add: dg)+
  have s1_other: "points_at s1 loc YELLOW = points_at stored loc YELLOW"
    "points_at s1 loc RED = points_at stored loc RED"
    using color_step_other[OF g] by simp_all
  have dy: "derived loc datum s1 c1 YELLOW = Inr (Some ?py)"
    using assms by (simp add: derived_def derive_point_def last_or_None_def s1_other g1)
  from y have y2: "points_at s2 loc YELLOW = append_and_trim (points_at s1 loc YELLOW) ?py"
    by (cases rule: color_step_cases; simp add: dy)
  have "points_at stored1 loc GREEN = points_at s1 loc GREEN"
    using color_step_other[OF y, of loc GREEN] color_step_other[OF r, of loc GREEN] by simp
  moreover have "points_at stored1 loc YELLOW = points_at s2 loc YELLOW"
    using color_step_other[OF r, of loc YELLOW] by simp
  ultimately have "points_at stored1 loc GREEN = evict_oldest (points_at stored loc GREEN) @ [?pg]"
    and "points_at stored1 loc YELLOW = evict_oldest (points_at stored loc YELLOW) @ [?py]"
    using g2 y2 s1_other by (simp_all add: append_and_trim_eq)
  with s show ?thesis
    unfolding update_single_record by (simp add: TLColor_members_def)
qed

theorem chaining_within_cycle_witness:
  "points_at [(Location 1 ''N'' ''T'',
       [(GREEN, [Point 40 40]), (RED, [Point 100 5]), (YELLOW, [Point 45 45])])]
     (Location 1 ''N'' ''T'') RED \<noteq> []
   \<and> last (points_at [(Location 1 ''N'' ''T'',
       [(GREEN, [Point 40 40]), (RED, [Point 100 5]), (YELLOW, [Point 45 45])])]
     (Location 1 ''N'' ''T'') RED) = Point 100 5
   \<and> points_at [(Location 1 ''N'' ''T'',
       [(GREEN, [Point 40 40]), (RED, [Point 100 5]), (YELLOW, [Point 45 45])])]
     (Location 1 ''N'' ''T'') GREEN \<noteq> []
   \<and> points_at [(Location 1 ''N'' ''T'',
       [(GREEN, [Point 40 40]), (RED, [Point 100 5]), (YELLOW, [Point 45 45])])]
     (Location 1 ''N'' ''T'') YELLOW \<noteq> []
   \<and> (\<exists>stored1.
        update_stored_cycle_points
          [(Location 1 ''N'' ''T'',
            [(GREEN, [Point 40 40]), (RED, [Point 100 5]), (YELLOW, [Point 45 45])])]
          [(Location 1 ''N'' ''T'', [(\<lambda>c. None)(GREEN := Some 130, YELLOW := Some 135)])]
        = Inr stored1 \<and>
        points_at stored1 (Location 1 ''N'' ''T'') GREEN = [Point 40 40, Point 130 30] \<and>
        points_at stored1 (Location 1 ''N'' ''T'') YELLOW = [Point 45 45, Point 135 35])"
proof -
  let ?loc = "Location 1 ''N'' ''T''"
  let ?S = "[(?loc, [(GREEN, [Point 40 40]), (RED, [Point 100 5]), (YELLOW, [Point 45 45])])]"
  let ?d = "(\<lambda>c. None)(GREEN := Some (130 :: rat), YELLOW := Some 135)"
  have h1: "points_at ?S ?loc RED \<noteq> []" by (simp add: points_at_def)
  have h2: "last (points_at ?S ?loc RED) = Point 100 5" by (simp add: points_at_def)
  have h3: "points_at ?S ?loc GREEN \<noteq> []" by (simp add: points_at_def)
  have h4: "points_at ?S ?loc YELLOW \<noteq> []" by (simp add: points_at_def)
  have h5: "?d GREEN = Some 130" by simp
  have h6: "?d YELLOW = Some 135" by simp
  have vg: "evict_oldest (points_at ?S ?loc GREEN)
              @ [Point (timestamp 130) (timestamp 130 - point_x (Point 100 5))]
            = [Point 40 40, Point 130 30]"
    by (simp add: points_at_def evict_oldest_def timestamp_def)
  have vy: "evict_oldest (points_at ?S ?loc YELLOW)
              @ [Point (timestamp 135)
                   ((timestamp 130 - point_x (Point 100 5)) + timestamp 135 - timestamp 130)]
            = [Point 45 45, Point 135 35]"
    by (simp add: points_at_def evict_oldest_def timestamp_def)
  from chaining_within_cycle[OF h1 h2 h3 h4 h5 h6]
  have "\<exists>stored1.
        update_stored_cycle_points ?S [(?loc, [?d])] = Inr stored1 \<and>
        points_at stored1 ?loc GREEN = [Point 40 40, Point 130 30] \<and>
        points_at stored1 ?loc YELLOW = [Point 45 45, Point 135 35]"
    unfolding vg vy by (rule conjunct2)
  with h1 h2 h3 h4 show ?thesis by blast
qed

text \<open>
  Claim C7 (two polls), as stated: after a first record with GREEN only at epoch 100 and a
  second record with RED at epoch 160, the history is GREEN \<open>[(100, 40)]\<close> and RED
  \<open>[(160, 60)]\<close>.  On the code the second record, holding no GREEN time, carries the
  GREEN point forward, so GREEN holds two points, and the first RED point takes the
  seconds of its minute, 40, as \<open>y\<close>.  When the second record repeats the GREEN time 100
  next to RED at 160, the call raises (the failure of claim C3).
\<close>

theorem two_polls_counterexample:
  "update_stored_cycle_points []
     [(Location 1 ''N'' ''T'', [(\<lambda>c. None)(GREEN := Some 100)])]
   = Inr [(Location 1 ''N'' ''T'', [(GREEN, [Point 100 40]), (RED, []), (YELLOW, [])])]
   \<and> update_stored_cycle_points
       [(Location 1 ''N'' ''T'', [(GREEN, [Point 100 40]), (RED, []), (YELLOW, [])])]
       [(Location 1 ''N'' ''T'', [(\<lambda>c. None)(RED := Some 160)])]
     = Inr [(Location 1 ''N'' ''T'',
         [(GREEN, [Point 100 40, Point 100 40]), (RED, [Point 160 40]), (YELLOW, [])])]
   \<and> [Point 100 40, Point 100 40] \<noteq> [Point 100 40]
   \<and> [Point 160 40] \<noteq> [Point 160 60]
   \<and> update_stored_cycle_points
       [(Location 1 ''N'' ''T'', [(GREEN, [Point 100 40]), (RED, []), (YELLOW, [])])]
       [(Location 1 ''N'' ''T'', [(\<lambda>c. None)(GREEN := Some 100, RED := Some 160)])]
     = Inl AttributeError"
  by code_simp

text \<open>
  Claim C7, amended.  From an empty history, a first update whose record has GREEN only at
  \<open>tg\<close> and a second update whose record has RED only at \<open>tr\<close> both return, and the
  history of the location is then GREEN \<open>[(tg, s), (tg, s)]\<close> with \<open>s\<close> the seconds of
  \<open>tg\<close> within its minute (the second record carries the GREEN point forward) and RED
  \<open>[(tr, s')]\<close> with \<open>s'\<close> the seconds of \<open>tr\<close> within its minute, the bootstrap form, as
  no RED point was stored.  For \<open>tg = 100\<close> and \<open>tr = 160\<close>: GREEN \<open>[(100, 40), (100, 40)]\<close>
  and RED \<open>[(160, 40)]\<close>.
\<close>

theorem two_polls:
  "\<exists>stored1 stored2.
     update_stored_cycle_points [] [(loc, [(\<lambda>c. None)(GREEN := Some tg)])] = Inr stored1 \<and>
     update_stored_cycle_points stored1 [(loc, [(\<lambda>c. None)(RED := Some tr)])] = Inr stored2 \<and>
     points_at stored2 loc GREEN
       = [Point (timestamp tg) (second tg), Point (timestamp tg) (second tg)] \<and>
     points_at stored2 loc YELLOW = [] \<and>
     points_at stored2 loc RED = [Point (timestamp tr) (second tr)]"
proof -
  let ?d1 = "(\<lambda>c. None)(GREEN := Some tg)"
  let ?d2 = "(\<lambda>c. None)(RED := Some tr)"
  let ?pg = "Point (timestamp tg) (second tg)"
  have n1: "\<not> green_without_red [] loc ?d1"
    by (simp add: green_without_red_def points_at_Nil)
  have d1: "?d1 GREEN = Some tg" "?d1 YELLOW = None" "?d1 RED = None"
    by simp_all
  have d2: "?d2 GREEN = None" "?d2 YELLOW = None" "?d2 RED = Some tr"
    by simp_all
  from record_absent_or_first[OF n1] obtain stored1 where
    u1: "update_stored_cycle_points [] [(loc, [?d1])] = Inr stored1" and
    a1: "\<And>color. ?d1 color = None \<Longrightarrow> points_at stored1 loc color = []" and
    b1: "\<And>color t. ?d1 color = Some t \<Longrightarrow>
           points_at stored1 loc color = [Point (timestamp t) (second t)]"
    unfolding points_at_Nil by (metis (no_types, lifting))
  have g1: "points_at stored1 loc GREEN = [?pg]" by (rule b1[OF d1(1)])
  have y1: "points_at stored1 loc YELLOW = []" by (rule a1[OF d1(2)])
  have r1: "points_at stored1 loc RED = []" by (rule a1[OF d1(3)])
  have n2: "\<not> green_without_red stored1 loc ?d2"
    by (simp add: green_without_red_def)
  from record_absent_or_first[OF n2] obtain stored2 where
    u2: "update_stored_cycle_points stored1 [(loc, [?d2])] = Inr stored2" and
    a2: "\<And>color. ?d2 color = None \<Longrightarrow> points_at stored2 loc color =
           (if points_at stored1 loc color = [] then []
            else evict_oldest (points_at stored1 loc color) @ [last (points_at stored1 loc color)])" and
    b2: "\<And>color t. ?d2 color = Some t \<Longrightarrow> points_at stored1 loc color = [] \<Longrightarrow>
           points_at stored2 loc color = [Point (timestamp t) (second t)]"
    by (metis (no_types, lifting))
  have g2: "points_at stored2 loc GREEN = [?pg, ?pg]"
    using a2[OF d2(1)] by (simp add: g1 evict_oldest_def)
  have y2: "points_at stored2 loc YELLOW = []"
    using a2[OF d2(2)] by (simp add: y1)
  have r2: "points_at stored2 loc RED = [Point (timestamp tr) (second tr)]"
    by (rule b2[OF d2(3) r1])
  from u1 u2 g2 y2 r2 show ?thesis by blast
qed

section \<open>Order of the stored points\<close>

lemma map_evict_oldest: "map f (evict_oldest xs) = evict_oldest (map f xs)"
  by (simp add: evict_oldest_def map_tl)

lemma datum_step_xs:
  assumes "datum_step loc stored datum = Inr stored1"
  shows "map point_x (points_at stored1 loc color) =
     (case datum color of
        None \<Rightarrow>
          if points_at stored loc color = [] then []
          else evict_oldest (map point_x (points_at stored loc color))
                 @ [last (map point_x (points_at stored loc color))]
      | Some t \<Rightarrow> evict_oldest (map point_x (points_at stored loc color)) @ [timestamp t])"
proof -
  from datum_step_color[OF assms, of color] obtain r cur where
    d: "derive_point color (datum color) (last_or_None (points_at stored loc color))
          (last_or_None (points_at stored loc RED)) cur = Inr r" and
    p: "points_at stored1 loc color =
          (case r of None \<Rightarrow> points_at stored loc color
           | Some p \<Rightarrow> append_and_trim (points_at stored loc color) p)"
    by blast
  show ?thesis
  proof (cases "datum color")
    case None
    with d have "r = last_or_None (points_at stored loc color)"
      by (simp add: derive_point_absent)
    with p None show ?thesis
      by (simp add: last_or_None_def append_and_trim_eq map_evict_oldest last_map)
  next
    case (Some t)
    with d obtain q where "r = Some q" "point_x q = timestamp t"
      using derive_point_Some by metis
    with p Some show ?thesis
      by (simp add: append_and_trim_eq map_evict_oldest)
  qed
qed

lemma sorted_evict_oldest: "sorted (xs @ ys) \<Longrightarrow> sorted (evict_oldest xs @ ys)"
  by (cases xs) (auto simp: evict_oldest_def)

lemma sorted_le_last:
  fixes xs :: "rat list"
  shows "sorted xs \<Longrightarrow> x \<in> set xs \<Longrightarrow> x \<le> last xs"
  by (induction xs) auto

lemma sorted_repeat_last:
  fixes xs :: "rat list"
  assumes "sorted (xs @ ys)" and "xs \<noteq> []"
  shows "sorted (xs @ last xs # ys)"
proof -
  have sx: "sorted xs" and sy: "sorted ys" and xy: "\<forall>x \<in> set xs. \<forall>y \<in> set ys. x \<le> y"
    using assms(1) by (simp_all add: sorted_append)
  have 1: "\<forall>x \<in> set xs. x \<le> last xs"
    using sx sorted_le_last by blast
  have 2: "\<forall>y \<in> set ys. last xs \<le> y"
    using xy assms(2) last_in_set by blast
  from sx sy xy 1 2 show ?thesis
    by (simp add: sorted_append)
qed

lemma datum_step_sorted:
  assumes "datum_step loc stored datum = Inr stored1"
    and "sorted (map point_x (points_at stored loc color)
                 @ (case map_option timestamp (datum color) of None \<Rightarrow> [] | Some t \<Rightarrow> [t]) @ rest)"
  shows "sorted (map point_x (points_at stored1 loc color) @ rest)"
proof (cases "datum color")
  case None
  show ?thesis
  proof (cases "points_at stored loc color = []")
    case True
    with None assms show ?thesis by (simp add: datum_step_xs)
  next
    case False
    let ?xs = "map point_x (points_at stored loc color)"
    from False have ne: "?xs \<noteq> []" by simp
    from assms(2) None have "sorted (?xs @ rest)" by simp
    from sorted_repeat_last[OF this ne] have "sorted (?xs @ last ?xs # rest)" .
    from sorted_evict_oldest[OF this] have "sorted (evict_oldest ?xs @ last ?xs # rest)" .
    with None False show ?thesis by (simp add: datum_step_xs[OF assms(1)])
  qed
next
  case (Some t)
  let ?xs = "map point_x (points_at stored loc color)"
  from assms(2) Some have "sorted (?xs @ timestamp t # rest)" by simp
  from sorted_evict_oldest[OF this] Some show ?thesis
    by (simp add: datum_step_xs[OF assms(1)])
qed

lemma datum_loop_sorted:
  assumes "for_loop (datum_step l) stored data = Inr stored1"
    and "sorted (map point_x (points_at stored loc color)
                 @ (if l = loc then List.map_filter (\<lambda>datum. map_option timestamp (datum color)) data
                    else []) @ rest)"
  shows "sorted (map point_x (points_at stored1 loc color) @ rest)"
  using assms
proof (induction data arbitrary: stored)
  case Nil
  then show ?case by (simp add: List.map_filter_simps split: if_splits)
next
  case (Cons datum data)
  from Cons.prems(1) obtain s1 where
    d: "datum_step l stored datum = Inr s1" and r: "for_loop (datum_step l) s1 data = Inr stored1"
    by (auto split: sum.splits)
  show ?case
  proof (cases "l = loc")
    case True
    let ?f = "\<lambda>datum. map_option timestamp (datum color)"
    from Cons.prems(2) True
    have "sorted (map point_x (points_at stored loc color)
                 @ (case ?f datum of None \<Rightarrow> [] | Some t \<Rightarrow> [t]) @ (List.map_filter ?f data @ rest))"
      by (simp add: List.map_filter_simps split: option.splits)
    from datum_step_sorted[OF d[unfolded True] this]
    have "sorted (map point_x (points_at s1 loc color) @ List.map_filter ?f data @ rest)" .
    with True have "sorted (map point_x (points_at s1 loc color)
                 @ (if l = loc then List.map_filter ?f data else []) @ rest)"
      by simp
    from Cons.IH[OF r this] show ?thesis .
  next
    case False
    then have "loc \<noteq> l" by simp
    from datum_step_other_loc[OF d this, of color] Cons.prems(2) False
    have "sorted (map point_x (points_at s1 loc color)
                 @ (if l = loc then List.map_filter (\<lambda>datum. map_option timestamp (datum color)) data
                    else []) @ rest)"
      by simp
    from Cons.IH[OF r this] show ?thesis .
  qed
qed

lemma update_sorted:
  assumes "update_stored_cycle_points stored all_cycle_data = Inr stored1"
    and "sorted (map point_x (points_at stored loc color) @ observed all_cycle_data loc color @ rest)"
  shows "sorted (map point_x (points_at stored1 loc color) @ rest)"
  using assms unfolding update_stored_cycle_points_def
proof (induction all_cycle_data arbitrary: stored)
  case Nil
  then show ?case by (simp add: observed_def)
next
  case (Cons item all_cycle_data)
  obtain l data where item: "item = (l, data)" by (cases item)
  from Cons.prems(1) item obtain s1 where
    d: "for_loop (datum_step l) stored data = Inr s1" and
    r: "for_loop (\<lambda>stored (loc, data). for_loop (datum_step loc) stored data) s1 all_cycle_data
          = Inr stored1"
    by (auto split: sum.splits)
  from Cons.prems(2) item
  have "sorted (map point_x (points_at stored loc color)
                 @ (if l = loc then List.map_filter (\<lambda>datum. map_option timestamp (datum color)) data
                    else []) @ (observed all_cycle_data loc color @ rest))"
    by (simp add: observed_def)
  from datum_loop_sorted[OF d this]
  have "sorted (map point_x (points_at s1 loc color) @ observed all_cycle_data loc color @ rest)" .
  from Cons.IH[OF r this] show ?case .
qed

text \<open>
  Claim C8, as stated: after every call the \<open>x\<close> coordinates of each stored list are
  strictly increasing.  A record without a time for a color appends the last point of
  that color again, so an \<open>x\<close> is repeated (first part); and the times of the records are
  stored as they come, so a RED time 100 after a RED time 160 leaves the list decreasing
  (second part).
\<close>

theorem increasing_x_counterexample:
  "update_stored_cycle_points []
     [(Location 1 ''N'' ''T'', [(\<lambda>c. None)(GREEN := Some 100), (\<lambda>c. None)(RED := Some 160)])]
   = Inr [(Location 1 ''N'' ''T'',
       [(GREEN, [Point 100 40, Point 100 40]), (RED, [Point 160 40]), (YELLOW, [])])]
   \<and> \<not> sorted_wrt (<)
        (map point_x
          (points_at
             [(Location 1 ''N'' ''T'',
               [(GREEN, [Point 100 40, Point 100 40]), (RED, [Point 160 40]), (YELLOW, [])])]
             (Location 1 ''N'' ''T'') GREEN))
   \<and> update_stored_cycle_points []
       [(Location 1 ''N'' ''T'', [(\<lambda>c. None)(RED := Some 160), (\<lambda>c. None)(RED := Some 100)])]
     = Inr [(Location 1 ''N'' ''T'',
         [(GREEN, []), (RED, [Point 160 40, Point 100 40]), (YELLOW, [])])]
   \<and> \<not> sorted_wrt (<)
        (map point_x
          (points_at
             [(Location 1 ''N'' ''T'',
               [(GREEN, []), (RED, [Point 160 40, Point 100 40]), (YELLOW, [])])]
             (Location 1 ''N'' ''T'') RED))"
  by code_simp

text \<open>
  Claim C8, amended.  For a location and a color, when the \<open>x\<close> coordinates stored for
  the color followed by the times that the update brings for it, in the order of the
  records, are in non-decreasing order, the \<open>x\<close> coordinates of the stored list are in
  non-decreasing order after the call of \<^verbatim>\<open>update_stored_cycle_points\<close>, when it returns.
  The order is not strict: a record without a time for the color repeats the last point.
\<close>

theorem nondecreasing_x:
  assumes "update_stored_cycle_points stored all_cycle_data = Inr stored1"
    and "sorted (map point_x (points_at stored loc color) @ observed all_cycle_data loc color)"
  shows "sorted (map point_x (points_at stored1 loc color))"
  using update_sorted[OF assms(1), of loc color "[]"] assms(2) by simp

theorem nondecreasing_x_witness:
  "update_stored_cycle_points
     [(Location 1 ''N'' ''T'', [(GREEN, [Point 40 40]), (RED, [Point 100 20]), (YELLOW, [])])]
     [(Location 1 ''N'' ''T'', [(\<lambda>c. None)(GREEN := Some 130), (\<lambda>c. None)(RED := Some 160)])]
   = Inr [(Location 1 ''N'' ''T'',
       [(GREEN, [Point 40 40, Point 130 30, Point 130 30]),
        (RED, [Point 100 20, Point 100 20, Point 160 60]), (YELLOW, [])])]
   \<and> sorted (map point_x
        (points_at
           [(Location 1 ''N'' ''T'', [(GREEN, [Point 40 40]), (RED, [Point 100 20]), (YELLOW, [])])]
           (Location 1 ''N'' ''T'') GREEN)
       @ observed
           [(Location 1 ''N'' ''T'', [(\<lambda>c. None)(GREEN := Some 130), (\<lambda>c. None)(RED := Some 160)])]
           (Location 1 ''N'' ''T'') GREEN)
   \<and> sorted (map point_x
        (points_at
           [(Location 1 ''N'' ''T'',
             [(GREEN, [Point 40 40, Point 130 30, Point 130 30]),
              (RED, [Point 100 20, Point 100 20, Point 160 60]), (YELLOW, [])])]
           (Location 1 ''N'' ''T'') GREEN))"
proof -
  let ?loc = "Location 1 ''N'' ''T''"
  let ?S = "[(?loc, [(GREEN, [Point 40 40]), (RED, [Point 100 20]), (YELLOW, [])])]"
  let ?D = "[(?loc, [(\<lambda>c. None)(GREEN := Some (130 :: rat)), (\<lambda>c. None)(RED := Some 160)])]"
  let ?S1 = "[(?loc, [(GREEN, [Point 40 40, Point 130 30, Point 130 30]),
                      (RED, [Point 100 20, Point 100 20, Point 160 60]), (YELLOW, [])])]"
  have u: "update_stored_cycle_points ?S ?D = Inr ?S1"
    by code_simp
  have h: "sorted (map point_x (points_at ?S ?loc GREEN) @ observed ?D ?loc GREEN)"
    by code_simp
  from nondecreasing_x[OF u h] u h show ?thesis by blast
qed

section \<open>Rows written by write_cycle_data\<close>

lemma concat_select:
  assumes "distinct (map fst al)"
  shows "concat (map (\<lambda>(k, v). if k = k0 then g k v else []) al) =
           (case map_of al k0 of None \<Rightarrow> [] | Some v \<Rightarrow> g k0 v)"
  using assms
proof (induction al)
  case Nil
  show ?case by simp
next
  case (Cons a al)
  obtain k v where a: "a = (k, v)" by (cases a)
  show ?case
  proof (cases "k = k0")
    case True
    with Cons.prems a have "map_of al k0 = None"
      by (simp add: map_of_eq_None_iff)
    with Cons a True show ?thesis by simp
  next
    case False
    with Cons a show ?thesis by simp
  qed
qed

lemma COLOR_TO_OUT_FILE_inject [simp]:
  "COLOR_TO_OUT_FILE c = COLOR_TO_OUT_FILE c' \<longleftrightarrow> c = c'"
  by (cases c; cases c') simp_all

lemma write_points_file:
  "write_points loc fs (color, points) fname =
     fs fname @ (if COLOR_TO_OUT_FILE color = fname then last_two_rows loc points else [])"
  by (cases "points = []")
     (simp_all add: write_points_def append_rows_def last_two_rows_def last_conv_nth)

lemma write_points_loop_file:
  "foldl (write_points loc) fs stored_points fname =
     fs fname @ concat (map (\<lambda>(color, points).
                  if COLOR_TO_OUT_FILE color = fname then last_two_rows loc points else [])
                stored_points)"
proof (induction stored_points arbitrary: fs)
  case Nil
  show ?case by simp
next
  case (Cons item stored_points)
  obtain color points where item: "item = (color, points)" by (cases item)
  show ?case
    unfolding item by (simp add: Cons.IH write_points_file)
qed

lemma write_loc_loop_file:
  "foldl (\<lambda>fs1 (loc, stored_points). foldl (write_points loc) fs1 stored_points) fs stored fname =
     fs fname @ concat (map (\<lambda>(loc, stored_points).
                  concat (map (\<lambda>(color, points).
                     if COLOR_TO_OUT_FILE color = fname then last_two_rows loc points else [])
                   stored_points))
                stored)"
proof (induction stored arbitrary: fs)
  case Nil
  show ?case by simp
next
  case (Cons item stored)
  obtain loc stored_points where item: "item = (loc, stored_points)" by (cases item)
  have A: "foldl (\<lambda>fs1 (loc, stored_points). foldl (write_points loc) fs1 stored_points) fs
          (item # stored) fname =
        foldl (write_points loc) fs stored_points fname @
        concat (map (\<lambda>(loc, stored_points).
                  concat (map (\<lambda>(color, points).
                     if COLOR_TO_OUT_FILE color = fname then last_two_rows loc points else [])
                   stored_points))
                stored)"
    unfolding item foldl_Cons prod.case by (rule Cons.IH)
  have B: "foldl (write_points loc) fs stored_points fname =
        fs fname @ concat (map (\<lambda>(color, points).
                  if COLOR_TO_OUT_FILE color = fname then last_two_rows loc points else [])
                stored_points)"
    by (rule write_points_loop_file)
  show ?case
    unfolding A B by (simp add: item)
qed

lemma headers_written:
  "foldl write_header fs (map COLOR_TO_OUT_FILE TLColor_members) (COLOR_TO_OUT_FILE color)
     = [DATA_HEADER]"
  by (cases color) (simp_all add: TLColor_members_def write_header_def)

lemma rows_of_last_two_rows:
  "rows_of loc (last_two_rows l points) = (if l = loc then last_two_rows l points else [])"
  by (cases l) (auto simp: rows_of_def last_two_rows_def make_data_row_def)

lemma rows_of_append: "rows_of loc (xs @ ys) = rows_of loc xs @ rows_of loc ys"
  by (simp add: rows_of_def)

lemma rows_of_Nil: "rows_of loc [] = []"
  by (simp add: rows_of_def)

lemma rows_of_concat: "rows_of loc (concat xss) = concat (map (rows_of loc) xss)"
  by (induction xss) (simp_all add: rows_of_append rows_of_Nil)

lemma rows_of_points_loop:
  assumes "distinct (map fst stored_points)"
  shows "rows_of loc (concat (map (\<lambda>(c, points).
             if COLOR_TO_OUT_FILE c = COLOR_TO_OUT_FILE color then last_two_rows l points else [])
           stored_points)) =
         (if l = loc then
            (case map_of stored_points color of None \<Rightarrow> [] | Some points \<Rightarrow> last_two_rows loc points)
          else [])"
proof -
  have "rows_of loc (concat (map (\<lambda>(c, points).
             if COLOR_TO_OUT_FILE c = COLOR_TO_OUT_FILE color then last_two_rows l points else [])
           stored_points)) =
        concat (map (\<lambda>(c, points). if c = color then rows_of loc (last_two_rows l points) else [])
           stored_points)"
    by (simp add: rows_of_concat comp_def split_def rows_of_Nil if_distrib[of "rows_of loc"]
        cong: if_cong)
  also have "\<dots> = (case map_of stored_points color of None \<Rightarrow> []
                   | Some points \<Rightarrow> rows_of loc (last_two_rows l points))"
    by (rule concat_select[OF assms])
  also have "\<dots> = (if l = loc then
            (case map_of stored_points color of None \<Rightarrow> [] | Some points \<Rightarrow> last_two_rows loc points)
          else [])"
    by (simp add: rows_of_last_two_rows split: option.splits)
  finally show ?thesis .
qed

lemma rows_of_loc_loop:
  assumes "dict_keys_distinct stored"
  shows "rows_of loc (concat (map (\<lambda>(l, stored_points).
             concat (map (\<lambda>(c, points).
                if COLOR_TO_OUT_FILE c = COLOR_TO_OUT_FILE color then last_two_rows l points else [])
              stored_points))
           stored)) =
         last_two_rows loc (points_at stored loc color)"
proof -
  let ?inner = "\<lambda>l stored_points. concat (map (\<lambda>(c, points).
                if COLOR_TO_OUT_FILE c = COLOR_TO_OUT_FILE color then last_two_rows l points else [])
              stored_points)"
  let ?sel = "\<lambda>l stored_points.
      (case map_of stored_points color of None \<Rightarrow> [] | Some points \<Rightarrow> last_two_rows l points)"
  from assms have d: "distinct (map fst stored)"
    and di: "\<And>item. item \<in> set stored \<Longrightarrow> distinct (map fst (snd item))"
    by (simp_all add: dict_keys_distinct_def list_all_iff)
  have "rows_of loc (concat (map (\<lambda>(l, stored_points). ?inner l stored_points) stored)) =
        concat (map (\<lambda>item. rows_of loc (?inner (fst item) (snd item))) stored)"
    by (simp add: rows_of_concat comp_def split_def)
  also have "\<dots> = concat (map (\<lambda>item. if fst item = loc then ?sel loc (snd item) else []) stored)"
  proof (rule arg_cong[where f = concat], rule map_cong[OF refl])
    fix item assume "item \<in> set stored"
    from rows_of_points_loop[OF di[OF this], of loc color "fst item"]
    show "rows_of loc (?inner (fst item) (snd item)) =
            (if fst item = loc then ?sel loc (snd item) else [])" .
  qed
  also have "\<dots> = concat (map (\<lambda>(l, stored_points). if l = loc then ?sel loc stored_points else []) stored)"
    by (simp add: split_def)
  also have "\<dots> = (case map_of stored loc of None \<Rightarrow> [] | Some stored_points \<Rightarrow> ?sel loc stored_points)"
    by (rule concat_select[OF d, where g = "\<lambda>k. ?sel loc"])
  also have "\<dots> = last_two_rows loc (points_at stored loc color)"
    by (simp add: points_at_def last_two_rows_def split: option.splits)
  finally show ?thesis .
qed

lemma no_header_in_last_two_rows:
  "filter (\<lambda>row. row_location row = None) (last_two_rows loc points) = []"
  by (simp add: last_two_rows_def make_data_row_def)

text \<open>
  Claim C10.  On a flush, the file of a color holds the header once and, for every
  location, exactly the two rows of the last but one and of the last point stored for
  that location and color, in this order, when at least two points are stored; it holds
  no row for a location and color with no point or one point, and the oldest of three
  points is not written.  The point history is a dictionary, with each key once.
\<close>

theorem write_cycle_data_rows:
  assumes "dict_keys_distinct stored"
  shows "rows_of loc (write_cycle_data fs stored (COLOR_TO_OUT_FILE color))
           = (if length (points_at stored loc color) < 2 then []
              else [make_data_row loc
                      (point_x (points_at stored loc color ! (length (points_at stored loc color) - 2)))
                      (point_y (points_at stored loc color ! (length (points_at stored loc color) - 2))),
                    make_data_row loc
                      (point_x (last (points_at stored loc color)))
                      (point_y (last (points_at stored loc color)))])
       \<and> filter (\<lambda>row. row_location row = None)
             (write_cycle_data fs stored (COLOR_TO_OUT_FILE color)) = [DATA_HEADER]"
proof -
  have fl: "write_cycle_data fs stored (COLOR_TO_OUT_FILE color) =
     [DATA_HEADER] @ concat (map (\<lambda>(l, stored_points).
             concat (map (\<lambda>(c, points).
                if COLOR_TO_OUT_FILE c = COLOR_TO_OUT_FILE color then last_two_rows l points else [])
              stored_points))
           stored)"
    unfolding write_cycle_data_def write_loc_loop_file headers_written ..
  have 1: "rows_of loc (write_cycle_data fs stored (COLOR_TO_OUT_FILE color))
             = last_two_rows loc (points_at stored loc color)"
    unfolding fl rows_of_append rows_of_loc_loop[OF assms]
    by (simp add: rows_of_def)
  have 2: "filter (\<lambda>row. row_location row = None)
             (write_cycle_data fs stored (COLOR_TO_OUT_FILE color)) = [DATA_HEADER]"
    unfolding fl
    by (simp add: filter_concat comp_def split_def no_header_in_last_two_rows
        if_distrib[of "filter (\<lambda>row. row_location row = None)"] cong: if_cong)
  from 1 2 show ?thesis by (simp add: last_two_rows_def)
qed

theorem write_cycle_data_rows_witness:
  "dict_keys_distinct
     [(Location 1 ''N'' ''T'',
       [(GREEN, [Point 40 40, Point 130 30, Point 190 30]), (RED, [Point 100 20]), (YELLOW, [])])]
   \<and> rows_of (Location 1 ''N'' ''T'')
       (write_cycle_data (\<lambda>fname. [])
          [(Location 1 ''N'' ''T'',
            [(GREEN, [Point 40 40, Point 130 30, Point 190 30]), (RED, [Point 100 20]),
             (YELLOW, [])])]
          (COLOR_TO_OUT_FILE GREEN))
     = [DataRow 1 ''N'' ''T'' 130 30, DataRow 1 ''N'' ''T'' 190 30]
   \<and> write_cycle_data (\<lambda>fname. [])
          [(Location 1 ''N'' ''T'',
            [(GREEN, [Point 40 40, Point 130 30, Point 190 30]), (RED, [Point 100 20]),
             (YELLOW, [])])]
          GREEN_OUT_FILE
     = [DATA_HEADER, DataRow 1 ''N'' ''T'' 130 30, DataRow 1 ''N'' ''T'' 190 30]
   \<and> write_cycle_data (\<lambda>fname. [])
          [(Location 1 ''N'' ''T'',
            [(GREEN, [Point 40 40, Point 130 30, Point 190 30]), (RED, [Point 100 20]),
             (YELLOW, [])])]
          RED_OUT_FILE
     = [DATA_HEADER]"
proof -
  let ?loc = "Location 1 ''N'' ''T''"
  let ?S = "[(?loc, [(GREEN, [Point 40 40, Point 130 30, Point 190 30]), (RED, [Point 100 20]),
                     (YELLOW, [])])]"
  have h: "dict_keys_distinct ?S"
    by (simp add: dict_keys_distinct_def)
  have p: "points_at ?S ?loc GREEN = [Point 40 40, Point 130 30, Point 190 30]"
    by (simp add: points_at_def)
  have g: "write_cycle_data (\<lambda>fname. []) ?S GREEN_OUT_FILE
             = [DATA_HEADER, DataRow 1 ''N'' ''T'' 130 30, DataRow 1 ''N'' ''T'' 190 30]"
    by code_simp
  have r: "write_cycle_data (\<lambda>fname. []) ?S RED_OUT_FILE = [DATA_HEADER]"
    by code_simp
  from write_cycle_data_rows[OF h, of ?loc "\<lambda>fname. []" GREEN]
  have "rows_of ?loc (write_cycle_data (\<lambda>fname. []) ?S (COLOR_TO_OUT_FILE GREEN))
          = [DataRow 1 ''N'' ''T'' 130 30, DataRow 1 ''N'' ''T'' 190 30]"
    unfolding p by (simp add: make_data_row_def)
  with h g r show ?thesis by blast
qed

section \<open>Event correlation\<close>

lemma nearest_red_before_Nil: "nearest_red_before [] e = None"
  by (simp add: nearest_red_before_def)

lemma nearest_red_before_snoc:
  "nearest_red_before (reds @ [p]) e =
     (if point_x p \<le> e then
        (case nearest_red_before reds e of
           None \<Rightarrow> Some (point_x p)
         | Some m \<Rightarrow> Some (max m (point_x p)))
      else nearest_red_before reds e)"
proof -
  define c where "c = filter (\<lambda>x. x \<le> e) (map point_x reds)"
  have old: "nearest_red_before reds e = (if c = [] then None else Some (Max (set c)))"
    by (simp only: nearest_red_before_def c_def Let_def)
  have new: "nearest_red_before (reds @ [p]) e =
      (if c @ (if point_x p \<le> e then [point_x p] else []) = [] then None
       else Some (Max (set (c @ (if point_x p \<le> e then [point_x p] else [])))))"
    unfolding nearest_red_before_def c_def Let_def by simp
  show ?thesis
  proof (cases "point_x p \<le> e")
    case False
    then show ?thesis unfolding old new by simp
  next
    case True
    show ?thesis
    proof (cases "c = []")
      case True
      with \<open>point_x p \<le> e\<close> show ?thesis unfolding old new by simp
    next
      case False
      then have "set c \<noteq> {}" by simp
      then have "Max (insert (point_x p) (set c)) = max (point_x p) (Max (set c))"
        by (simp add: Max_insert)
      with False True show ?thesis
        unfolding old new by (simp add: max.commute)
    qed
  qed
qed

lemma red_loop:
  "foldl (red_step e) None reds = map_option (\<lambda>x. e - x) (nearest_red_before reds e)"
proof (induction reds rule: rev_induct)
  case Nil
  show ?case by (simp add: nearest_red_before_Nil)
next
  case (snoc p reds)
  show ?case
  proof (cases "nearest_red_before reds e")
    case None
    with snoc show ?thesis
      by (simp add: nearest_red_before_snoc red_step_def closer_def)
  next
    case (Some m)
    with snoc show ?thesis
      by (auto simp: nearest_red_before_snoc red_step_def closer_def max_def)
  qed
qed

lemma event_step_correlate:
  "event_step reds vals e =
     (case correlate reds e of
        None \<Rightarrow> vals
      | Some c \<Rightarrow> (fst vals @ [fst c], snd vals @ [snd c]))"
  by (simp add: event_step_def red_loop correlate_def split: option.splits)

lemma event_loop:
  "foldl (event_step reds) vals events =
     (fst vals @ map fst (List.map_filter (correlate reds) events),
      snd vals @ map snd (List.map_filter (correlate reds) events))"
proof (induction events arbitrary: vals)
  case Nil
  show ?case by (simp add: List.map_filter_simps)
next
  case (Cons e events)
  show ?case
    unfolding foldl_Cons Cons.IH
    by (simp add: event_step_correlate List.map_filter_simps split: option.splits)
qed

lemma write_events_step_file:
  "fst (write_events_step (fs, stored) (loc, all_events)) fname =
     fs fname @ (if fname = EVENT_OUT_FILE then event_rows loc all_events (points_at stored loc RED)
                 else [])"
proof -
  have z: "zip (map fst cs) (map snd cs) = cs" for cs :: "(rat \<times> rat) list"
    by (simp add: zip_map_fst_snd)
  show ?thesis
    by (simp add: write_events_step_def Let_def split_beta event_rows_def append_rows_def
        snd_getitem2 event_loop z)
qed

lemma write_events_loop_file:
  "fst (foldl write_events_step (fs, stored) stored_events) EVENT_OUT_FILE =
     fs EVENT_OUT_FILE
       @ concat (map (\<lambda>(loc, all_events). event_rows loc all_events (points_at stored loc RED))
           stored_events)"
proof (induction stored_events arbitrary: fs stored)
  case Nil
  show ?case by simp
next
  case (Cons item stored_events)
  obtain loc all_events where item: "item = (loc, all_events)" by (cases item)
  obtain fs1 stored1 where st: "write_events_step (fs, stored) (loc, all_events) = (fs1, stored1)"
    by (cases "write_events_step (fs, stored) (loc, all_events)")
  have f1: "fs1 EVENT_OUT_FILE =
              fs EVENT_OUT_FILE @ event_rows loc all_events (points_at stored loc RED)"
    using write_events_step_file[of fs stored loc all_events EVENT_OUT_FILE] st by simp
  have p1: "points_at stored1 l RED = points_at stored l RED" for l
    using points_at_write_events_step[of "(fs, stored)" "(loc, all_events)" l RED] st by simp
  show ?case
    unfolding item foldl_Cons st Cons.IH f1 by (simp add: p1)
qed

lemma rows_of_event_rows:
  "rows_of loc (event_rows l all_events reds) =
     (if l = loc then event_rows l all_events reds else [])"
  by (cases l) (auto simp: rows_of_def event_rows_def make_data_row_def filter_map comp_def split_def)

lemma correlate_meaning:
  "correlate reds e =
     (if \<exists>p \<in> set reds. point_x p \<le> e
      then Some (e, e - Max {x \<in> point_x ` set reds. x \<le> e})
      else None)"
proof -
  have s: "set (filter (\<lambda>x. x \<le> e) (map point_x reds)) = {x \<in> point_x ` set reds. x \<le> e}"
    by auto
  have n: "filter (\<lambda>x. x \<le> e) (map point_x reds) = [] \<longleftrightarrow> \<not> (\<exists>p \<in> set reds. point_x p \<le> e)"
    by (auto simp: filter_empty_conv)
  show ?thesis
    unfolding correlate_def nearest_red_before_def Let_def n s[symmetric] by simp
qed

lemma write_events_file:
  "fst (write_events fs stored_events stored) EVENT_OUT_FILE =
     DATA_HEADER
       # concat (map (\<lambda>(loc, all_events). event_rows loc all_events (points_at stored loc RED))
           stored_events)"
  unfolding write_events_def write_events_loop_file by (simp add: write_header_def)

lemma rows_of_event_loop:
  assumes "distinct (map fst stored_events)"
  shows "rows_of loc (concat (map (\<lambda>(l, all_events). event_rows l all_events (points_at stored l RED))
           stored_events)) =
         event_rows loc (batches_at stored_events loc) (points_at stored loc RED)"
proof -
  have "rows_of loc (concat (map (\<lambda>(l, all_events). event_rows l all_events (points_at stored l RED))
           stored_events)) =
        concat (map (\<lambda>(l, all_events).
           if l = loc then event_rows loc all_events (points_at stored loc RED) else [])
           stored_events)"
    unfolding rows_of_concat map_map comp_def split_def rows_of_event_rows
    by (rule arg_cong[where f = concat], rule map_cong[OF refl]) simp
  also have "\<dots> = (case map_of stored_events loc of None \<Rightarrow> []
                   | Some all_events \<Rightarrow> event_rows loc all_events (points_at stored loc RED))"
    by (rule concat_select[OF assms, where g = "\<lambda>k all_events.
          event_rows loc all_events (points_at stored loc RED)"])
  also have "\<dots> = event_rows loc (batches_at stored_events loc) (points_at stored loc RED)"
    by (simp add: batches_at_def event_rows_def split: option.splits)
  finally show ?thesis .
qed

text \<open>
  Claim C2.  \<^verbatim>\<open>write_events\<close> works on the oldest batch retained for each location.  The
  rows it writes for a location are: none when fewer than three batches or fewer than
  three RED points are retained for it; otherwise, for the events \<open>e\<close> of the oldest
  batch in ascending order, the row \<open>(e, e - x)\<close> with \<open>x\<close> the largest \<open>x\<close> of a retained
  RED point with \<open>x \<le> e\<close>, and no row for an event that no RED point precedes.  The
  event history is a dictionary, with each key once.  With RED points at 100, 160 and
  220, the event 170 gives \<open>(170, 10)\<close> and the event 90 gives no row.
\<close>

theorem write_events_correlates:
  assumes "distinct (map fst stored_events)"
  shows "rows_of loc (fst (write_events fs stored_events stored) EVENT_OUT_FILE)
           = (if length (batches_at stored_events loc) < 3 \<or> length (points_at stored loc RED) < 3
              then []
              else map (\<lambda>(x_val, y_val). make_data_row loc x_val y_val)
                     (List.map_filter (correlate (points_at stored loc RED))
                        (sort (batches_at stored_events loc ! 0))))
       \<and> (\<forall>reds e. correlate reds e =
            (if \<exists>p \<in> set reds. point_x p \<le> e
             then Some (e, e - Max {x \<in> point_x ` set reds. x \<le> e})
             else None))"
proof -
  have "rows_of loc (fst (write_events fs stored_events stored) EVENT_OUT_FILE)
          = event_rows loc (batches_at stored_events loc) (points_at stored loc RED)"
    unfolding write_events_file
    using rows_of_event_loop[OF assms, of loc stored]
    by (simp add: rows_of_def)
  then show ?thesis
    using correlate_meaning by (simp add: event_rows_def)
qed

theorem write_events_correlates_witness:
  "distinct (map fst [(Location 1 ''N'' ''T'', [[170, 90], [230], [290 :: rat]])])
   \<and> fst (write_events (\<lambda>fname. [])
        [(Location 1 ''N'' ''T'', [[170, 90], [230], [290]])]
        [(Location 1 ''N'' ''T'',
          [(GREEN, []), (RED, [Point 100 40, Point 160 40, Point 220 40]), (YELLOW, [])])])
       EVENT_OUT_FILE
     = [DATA_HEADER, DataRow 1 ''N'' ''T'' 170 10]
   \<and> rows_of (Location 1 ''N'' ''T'')
       (fst (write_events (\<lambda>fname. [])
          [(Location 1 ''N'' ''T'', [[170, 90], [230], [290]])]
          [(Location 1 ''N'' ''T'',
            [(GREEN, []), (RED, [Point 100 40, Point 160 40, Point 220 40]), (YELLOW, [])])])
         EVENT_OUT_FILE)
     = [DataRow 1 ''N'' ''T'' 170 10]
   \<and> correlate [Point 100 40, Point 160 40, Point 220 40] 170 = Some (170, 10)
   \<and> correlate [Point 100 40, Point 160 40, Point 220 40] 90 = None"
proof -
  let ?loc = "Location 1 ''N'' ''T''"
  let ?E = "[(?loc, [[170, 90], [230], [290 :: rat]])]"
  let ?reds = "[Point 100 40, Point 160 40, Point 220 40]"
  let ?S = "[(?loc, [(GREEN, []), (RED, ?reds), (YELLOW, [])])]"
  have h: "distinct (map fst ?E)"
    by simp
  have f: "fst (write_events (\<lambda>fname. []) ?E ?S) EVENT_OUT_FILE
             = [DATA_HEADER, DataRow 1 ''N'' ''T'' 170 10]"
    by code_simp
  have c1: "correlate ?reds 170 = Some (170, 10)"
    by (simp add: correlate_def nearest_red_before_def)
  have c2: "correlate ?reds 90 = None"
    by (simp add: correlate_def nearest_red_before_def)
  have b: "batches_at ?E ?loc = [[170, 90], [230], [290]]"
    by (simp add: batches_at_def)
  have p: "points_at ?S ?loc RED = ?reds"
    by (simp add: points_at_def)
  have s: "sort [170, 90 :: rat] = [90, 170]"
    by simp
  from write_events_correlates[OF h, of ?loc "\<lambda>fname. []" ?S]
  have "rows_of ?loc (fst (write_events (\<lambda>fname. []) ?E ?S) EVENT_OUT_FILE)
          = [DataRow 1 ''N'' ''T'' 170 10]"
    unfolding b p by (simp add: s List.map_filter_simps c1 c2 make_data_row_def)
  with h f c1 c2 show ?thesis by blast
qed

section \<open>Snapshot parsers\<close>
















subsection \<open>A dictionary of lists filled entry by entry\<close>








subsection \<open>The loops of the parsers and the walk of the payload\<close>
















end
